theory Spec2Isabelle
  imports Main
begin

section \<open>Python built-ins used by the bot\<close>

text \<open>
  Strings are lists of characters. \<open>isspace\<close> is Python's \<open>str.isspace\<close> on one character
  (also the class \<open>\s\<close> of \<open>re\<close> on a \<open>str\<close> pattern), for code points below 256:
  tab, line feed, vertical tab, form feed, carriage return, the four separators
  28 to 31, space, NEL (133) and the no-break space (160).
\<close>

definition isspace :: "char \<Rightarrow> bool" where
  "isspace c =
     (let n = (of_char c :: nat)
      in (9 \<le> n \<and> n \<le> 13) \<or> (28 \<le> n \<and> n \<le> 32) \<or> n = 133 \<or> n = 160)"

definition starts_with :: "string \<Rightarrow> string \<Rightarrow> bool" where
  "starts_with p s = (take (length p) s = p)"

text \<open>\<open>s.strip()\<close>: leading and trailing whitespace removed.\<close>

definition py_strip :: "string \<Rightarrow> string" where
  "py_strip s = rev (dropWhile isspace (rev (dropWhile isspace s)))"

text \<open>\<open>sep.join(xs)\<close>.\<close>

fun py_join :: "string \<Rightarrow> string list \<Rightarrow> string" where
  "py_join sep [] = []"
| "py_join sep [x] = x"
| "py_join sep (x # y # ys) = x @ sep @ py_join sep (y # ys)"

text \<open>The slice \<open>xs[-n:]\<close> for a positive \<open>n\<close>: the last \<open>n\<close> elements, the whole list when it is shorter.\<close>

definition last_n :: "nat \<Rightarrow> 'a list \<Rightarrow> 'a list" where
  "last_n n xs = drop (length xs - n) xs"

text \<open>\<open>str(i)\<close> of an integer: its decimal digits, with a minus sign when negative.\<close>

definition digit_char :: "nat \<Rightarrow> char" where
  "digit_char d = ''0123456789'' ! d"

fun str_nat :: "nat \<Rightarrow> string" where
  "str_nat n = (if n < 10 then [digit_char n] else str_nat (n div 10) @ [digit_char (n mod 10)])"

declare str_nat.simps [simp del]

definition py_str :: "int \<Rightarrow> string" where
  "py_str i = (if i < 0 then CHR ''-'' # str_nat (nat (- i)) else str_nat (nat i))"

text \<open>
  \<open>int(s)\<close> of a string, on the canonical decimal strings (an optional minus sign and at
  least one digit); any other string is the \<open>ValueError\<close> of the source, \<open>None\<close> here.
  The bot only ever passes strings produced by \<open>str\<close>.
\<close>

definition digit_val :: "char \<Rightarrow> nat option" where
  "digit_val c =
     (let n = (of_char c :: nat) in if 48 \<le> n \<and> n \<le> 57 then Some (n - 48) else None)"

fun parse_nat :: "nat \<Rightarrow> string \<Rightarrow> nat option" where
  "parse_nat acc [] = Some acc"
| "parse_nat acc (c # cs) =
     (case digit_val c of None \<Rightarrow> None | Some d \<Rightarrow> parse_nat (10 * acc + d) cs)"

definition py_int :: "string \<Rightarrow> int option" where
  "py_int s =
     (case s of
        [] \<Rightarrow> None
      | c # cs \<Rightarrow>
          if c = CHR ''-''
          then (if cs = [] then None else map_option (\<lambda>n. - int n) (parse_nat 0 cs))
          else map_option int (parse_nat 0 s))"

section \<open>Configuration and constants\<close>

definition GEEKNEWS_FEED_URL :: string where
  "GEEKNEWS_FEED_URL = ''https://feeds.feedburner.com/geeknews-feed''"

definition HN_STATE_KEY :: string where
  "HN_STATE_KEY = ''hackernews_top''"

definition MAX_IDS_PER_FEED :: nat where
  "MAX_IDS_PER_FEED = 1000"

text \<open>The values read from the environment when the module is loaded.\<close>

record config =
  GEEKNEWS_WEBHOOK :: string
  HACKERNEWS_WEBHOOK :: string
  HN_MIN_SCORE_COMMENTS :: int
  DATA_DIR :: string

section \<open>State, network and world\<close>

text \<open>The state is the dictionary \<open>dict[str, list[str]]\<close>: source key to seen identifiers.\<close>

type_synonym seen_state = "string \<rightharpoonup> string list"

text \<open>
  A feed entry as \<open>feedparser\<close> gives it; a missing key is \<open>None\<close>. \<open>e_content\<close> is the list
  under \<open>content\<close> (empty when the key is missing), each element with its optional \<open>value\<close>.
\<close>

record entry =
  e_id :: "string option"
  e_link :: "string option"
  e_title :: "string option"
  e_author :: "string option"
  e_published :: "string option"
  e_content :: "string option list"
  e_summary :: "string option"

record feed =
  bozo :: bool
  entries :: "entry list"

text \<open>
  An item of the Hacker News API, with the fields the bot reads; a missing key is \<open>None\<close>,
  and \<open>h_dead\<close>, \<open>h_deleted\<close> are the truth values of \<open>item.get("dead")\<close> and
  \<open>item.get("deleted")\<close>.
\<close>

record hn_item =
  h_title :: "string option"
  h_url :: "string option"
  h_by :: "string option"
  h_score :: "int option"
  h_descendants :: "int option"
  h_id :: "int option"
  h_dead :: bool
  h_deleted :: bool

text \<open>
  The network is a parameter: what each request returns, as a function of the number of
  requests made before it and of its arguments. \<open>feed_resp\<close> is \<open>None\<close> when
  \<open>feedparser.parse\<close> raises; \<open>top_resp\<close> and \<open>item_resp\<close> are \<open>None\<close> when the request
  raises \<open>RequestException\<close> (for an item also when the reply is JSON \<open>null\<close> or an empty
  object, the values for which \<open>not item\<close> holds); \<open>post_resp\<close> is \<open>False\<close> when the post
  raises \<open>RequestException\<close>.
\<close>

record net =
  feed_resp :: "nat \<Rightarrow> feed option"
  top_resp :: "nat \<Rightarrow> int list option"
  item_resp :: "nat \<Rightarrow> int \<Rightarrow> hn_item option"
  post_resp :: "nat \<Rightarrow> string \<Rightarrow> string \<Rightarrow> bool"

text \<open>
  The world records the requests made so far: their number, and the webhook posts
  (URL and text) in the order they were issued.
\<close>

record world =
  clock :: nat
  posts :: "(string \<times> string) list"

definition tick :: "world \<Rightarrow> world" where
  "tick w = w\<lparr>clock := Suc (clock w)\<rparr>"

datatype error = ValueError

section \<open>Mattermost\<close>

definition send_to_mattermost :: "net \<Rightarrow> world \<Rightarrow> string \<Rightarrow> string \<Rightarrow> bool \<times> world" where
  "send_to_mattermost env w webhook_url text =
     (post_resp env (clock w) webhook_url text,
      w\<lparr>clock := Suc (clock w), posts := posts w @ [(webhook_url, text)]\<rparr>)"

section \<open>GeekNews (RSS)\<close>

text \<open>
  The four substitutions of \<open>strip_html\<close>. Each scans from the left; where the pattern
  matches, the match is replaced and the scan goes on after it, otherwise one character
  is copied. No pattern matches the empty string, and in each the greedy repetition is
  followed by characters outside the repeated class, so the longest repetition is the
  only candidate.
\<close>

text \<open>\<open>re.sub(r"<li>\s*", "- ", html)\<close>\<close>

function sub_li :: "string \<Rightarrow> string" where
  "sub_li [] = []"
| "sub_li (c # cs) =
     (if starts_with ''<li>'' (c # cs)
      then ''- '' @ sub_li (dropWhile isspace (drop 4 (c # cs)))
      else c # sub_li cs)"
  by pat_completeness auto
termination
  by (relation "measure length")
     (auto intro: le_less_trans [OF length_dropWhile_le])

text \<open>\<open>re.sub(r"<br\s*/?>", "\n", text)\<close>\<close>

definition br_rest :: "string \<Rightarrow> string option" where
  "br_rest s =
     (if starts_with ''<br'' s
      then (let r = dropWhile isspace (drop 3 s);
                r' = (if starts_with ''/'' r then drop 1 r else r)
            in if starts_with ''>'' r' then Some (drop 1 r') else None)
      else None)"

function sub_br :: "string \<Rightarrow> string" where
  "sub_br [] = []"
| "sub_br (c # cs) =
     (case br_rest (c # cs) of
        Some r \<Rightarrow> CHR 0x0A # sub_br r
      | None \<Rightarrow> c # sub_br cs)"
  by pat_completeness auto

lemma br_rest_shorter: "br_rest s = Some r \<Longrightarrow> length r < length s"
proof -
  assume a: "br_rest s = Some r"
  define r0 where "r0 = dropWhile isspace (drop 3 s)"
  define r1 where "r1 = (if starts_with ''/'' r0 then drop 1 r0 else r0)"
  from a have sw: "starts_with ''>'' r1" and r: "r = drop 1 r1"
    by (auto simp: br_rest_def Let_def r0_def r1_def split: if_splits)
  from sw have "r1 \<noteq> []" by (auto simp: starts_with_def)
  with r have "length r < length r1" by simp
  moreover have "length r1 \<le> length r0" by (simp add: r1_def)
  moreover have "length r0 \<le> length s"
    unfolding r0_def by (rule le_trans [OF length_dropWhile_le]) simp
  ultimately show ?thesis by simp
qed

termination sub_br
  by (relation "measure length") (auto dest: br_rest_shorter)

text \<open>
  \<open>re.sub(r"<[^>]+>", "", text)\<close>: a \<open><\<close>, at least one character other than \<open>>\<close>
  (a line feed too), and the first \<open>>\<close> after them. A \<open><\<close> with no later \<open>>\<close>, and
  \<open><>\<close>, are copied.
\<close>

function sub_tags :: "string \<Rightarrow> string" where
  "sub_tags [] = []"
| "sub_tags (c # cs) =
     (if c = CHR ''<'' \<and> takeWhile (\<lambda>x. x \<noteq> CHR ''>'') cs \<noteq> []
         \<and> dropWhile (\<lambda>x. x \<noteq> CHR ''>'') cs \<noteq> []
      then sub_tags (drop 1 (dropWhile (\<lambda>x. x \<noteq> CHR ''>'') cs))
      else c # sub_tags cs)"
  by pat_completeness auto
termination
  by (relation "measure length")
     (auto intro: le_less_trans [OF diff_le_self] le_less_trans [OF length_dropWhile_le])

text \<open>\<open>re.sub(r"\n{3,}", "\n\n", text)\<close>: a maximal run of three or more line feeds becomes two.\<close>

function sub_newlines :: "string \<Rightarrow> string" where
  "sub_newlines [] = []"
| "sub_newlines (c # cs) =
     (if 3 \<le> length (takeWhile (\<lambda>x. x = CHR 0x0A) (c # cs))
      then [CHR 0x0A, CHR 0x0A] @ sub_newlines (dropWhile (\<lambda>x. x = CHR 0x0A) (c # cs))
      else c # sub_newlines cs)"
  by pat_completeness auto
termination
  by (relation "measure length")
     (auto split: if_splits intro: le_less_trans [OF length_dropWhile_le])

definition strip_html :: "string \<Rightarrow> string" where
  "strip_html html = py_strip (sub_newlines (sub_tags (sub_br (sub_li html))))"

text \<open>\<open>entry.get(key, default)\<close> and the truth value of an optional string.\<close>

definition get_or :: "'a option \<Rightarrow> 'a \<Rightarrow> 'a" where
  "get_or v d = (case v of None \<Rightarrow> d | Some x \<Rightarrow> x)"

definition truthy :: "string option \<Rightarrow> bool" where
  "truthy v = (case v of None \<Rightarrow> False | Some x \<Rightarrow> x \<noteq> [])"

definition format_geeknews :: "entry \<Rightarrow> string" where
  "format_geeknews entry =
     (let title = get_or (e_title entry) ''(no title)'';
          link = get_or (e_link entry) [];
          author = get_or (e_author entry) [];
          published = get_or (e_published entry) [];
          content_html =
            (case e_content entry of
               v # _ \<Rightarrow> get_or v []
             | [] \<Rightarrow> if truthy (e_summary entry) then get_or (e_summary entry) [] else []);
          summary = strip_html content_html;
          lines0 = [''#### ['' @ title @ '']('' @ link @ '')''];
          lines1 = (if summary \<noteq> [] then lines0 @ [CHR 0x0A # summary] else lines0);
          meta0 = (if author \<noteq> [] then [''by **'' @ author @ ''**''] else []);
          meta = (if published \<noteq> [] then meta0 @ [published] else meta0);
          lines2 = (if meta \<noteq> [] then lines1 @ [CHR 0x0A # ''> '' @ py_join '' | '' meta]
                    else lines1)
      in py_join [CHR 0x0A] lines2)"

text \<open>The identifier of an entry: \<open>entry.get("id") or entry.get("link", "")\<close>.\<close>

definition entry_ident :: "entry \<Rightarrow> string" where
  "entry_ident e = (if truthy (e_id e) then get_or (e_id e) [] else get_or (e_link e) [])"

text \<open>\<open>feedparser.parse(GEEKNEWS_FEED_URL)\<close>: one request; \<open>None\<close> is the exception.\<close>

definition fetch_feed :: "net \<Rightarrow> world \<Rightarrow> feed option \<times> world" where
  "fetch_feed env w = (feed_resp env (clock w), tick w)"

text \<open>
  The entries that pass the check against \<open>seen_set = set(seen_list)\<close>, in feed order.
\<close>

definition new_entries :: "string list \<Rightarrow> entry list \<Rightarrow> entry list" where
  "new_entries seen_list es = filter (\<lambda>e. entry_ident e \<notin> set seen_list) es"

text \<open>
  The body of the delivery loop of \<open>poll_geeknews\<close> for one entry, on the pair of
  \<open>seen_list\<close> and the world, and the loop over \<open>reversed(new_entries)\<close>.
\<close>

definition gn_step :: "net \<Rightarrow> config \<Rightarrow> string list \<times> world \<Rightarrow> entry \<Rightarrow> string list \<times> world" where
  "gn_step env cfg st entry =
     (let entry_id = entry_ident entry;
          text = format_geeknews entry;
          (ok, w') = send_to_mattermost env (snd st) (GEEKNEWS_WEBHOOK cfg) text
      in (if ok then fst st @ [entry_id] else fst st, w'))"

fun gn_loop :: "net \<Rightarrow> config \<Rightarrow> string list \<times> world \<Rightarrow> entry list \<Rightarrow> string list \<times> world" where
  "gn_loop env cfg st [] = st"
| "gn_loop env cfg st (e # es) = gn_loop env cfg (gn_step env cfg st e) es"

text \<open>
  \<open>poll_geeknews\<close> mutates the dictionary; the model returns the new one, with the world.
  \<open>seen_list\<close> is the list stored under the key, so the appends of the loop go to the
  stored list, which the last assignment then replaces by its slice.
\<close>

definition poll_geeknews :: "net \<Rightarrow> config \<Rightarrow> seen_state \<Rightarrow> world \<Rightarrow> seen_state \<times> world" where
  "poll_geeknews env cfg state w =
     (case fetch_feed env w of
        (None, w1) \<Rightarrow> (state, w1)
      | (Some fd, w1) \<Rightarrow>
          if bozo fd \<and> entries fd = [] then (state, w1)
          else
            let first_run = (state GEEKNEWS_FEED_URL = None);
                seen_list = get_or (state GEEKNEWS_FEED_URL) [];
                new = new_entries seen_list (entries fd)
            in if new = [] then (state, w1)
               else if first_run
               then (state(GEEKNEWS_FEED_URL \<mapsto>
                       last_n MAX_IDS_PER_FEED (seen_list @ map entry_ident new)), w1)
               else (case gn_loop env cfg (seen_list, w1) (rev new) of
                       (seen_list', w2) \<Rightarrow>
                         (state(GEEKNEWS_FEED_URL \<mapsto> last_n MAX_IDS_PER_FEED seen_list'), w2)))"

section \<open>Hacker News (API)\<close>

definition fetch_hn_top_ids :: "net \<Rightarrow> world \<Rightarrow> int list \<times> world" where
  "fetch_hn_top_ids env w = (get_or (top_resp env (clock w)) [], tick w)"

definition fetch_hn_item :: "net \<Rightarrow> world \<Rightarrow> int \<Rightarrow> hn_item option \<times> world" where
  "fetch_hn_item env w item_id = (item_resp env (clock w) item_id, tick w)"

definition format_hackernews :: "hn_item \<Rightarrow> string" where
  "format_hackernews item =
     (let title = get_or (h_title item) ''(no title)'';
          url = get_or (h_url item) [];
          author = get_or (h_by item) [];
          score = get_or (h_score item) 0;
          descendants = get_or (h_descendants item) 0;
          item_id = get_or (h_id item) 0;
          comments_url = ''https://news.ycombinator.com/item?id='' @ py_str item_id;
          link = (if url \<noteq> [] then url else comments_url);
          lines = [''#### ['' @ title @ '']('' @ link @ '')''];
          meta0 = [py_str score @ '' points''];
          meta1 = (if author \<noteq> [] then meta0 @ [''by **'' @ author @ ''**''] else meta0);
          meta = meta1 @ [''['' @ py_str descendants @ '' comments]('' @ comments_url @ '')'']
      in py_join [CHR 0x0A] (lines @ [''> '' @ py_join '' | '' meta]))"

text \<open>
  \<open>[str(sid) for sid in top_ids if str(sid) not in seen_set]\<close>, in rank order.
\<close>

definition new_ids :: "string list \<Rightarrow> int list \<Rightarrow> string list" where
  "new_ids seen_list top_ids = map py_str (filter (\<lambda>sid. py_str sid \<notin> set seen_list) top_ids)"

text \<open>
  The body of the loop of \<open>poll_hackernews\<close> for one identifier. \<open>int(str_id)\<close> may raise
  \<open>ValueError\<close>, which leaves the function: the result is then \<open>Inl ValueError\<close>.
\<close>

definition hn_step ::
  "net \<Rightarrow> config \<Rightarrow> string list \<times> world \<Rightarrow> string \<Rightarrow> error + string list \<times> world" where
  "hn_step env cfg st str_id =
     (case py_int str_id of
        None \<Rightarrow> Inl ValueError
      | Some n \<Rightarrow>
          (case fetch_hn_item env (snd st) n of
             (None, w1) \<Rightarrow> Inr (fst st @ [str_id], w1)
           | (Some item, w1) \<Rightarrow>
               if h_dead item \<or> h_deleted item then Inr (fst st @ [str_id], w1)
               else
                 let score = get_or (h_score item) 0;
                     descendants = get_or (h_descendants item) 0
                 in if score + descendants < HN_MIN_SCORE_COMMENTS cfg then Inr (fst st, w1)
                    else
                      let text = format_hackernews item;
                          (ok, w2) = send_to_mattermost env w1 (HACKERNEWS_WEBHOOK cfg) text
                      in Inr (if ok then fst st @ [str_id] else fst st, w2)))"

fun hn_loop ::
  "net \<Rightarrow> config \<Rightarrow> string list \<times> world \<Rightarrow> string list \<Rightarrow> error + string list \<times> world" where
  "hn_loop env cfg st [] = Inr st"
| "hn_loop env cfg st (s # ss) =
     (case hn_step env cfg st s of
        Inl e \<Rightarrow> Inl e
      | Inr st' \<Rightarrow> hn_loop env cfg st' ss)"

definition poll_hackernews ::
  "net \<Rightarrow> config \<Rightarrow> seen_state \<Rightarrow> world \<Rightarrow> error + seen_state \<times> world" where
  "poll_hackernews env cfg state w =
     (case fetch_hn_top_ids env w of
        (top_ids, w1) \<Rightarrow>
          if top_ids = [] then Inr (state, w1)
          else
            let first_run = (state HN_STATE_KEY = None);
                seen_list = get_or (state HN_STATE_KEY) [];
                new = new_ids seen_list top_ids
            in if new = [] then Inr (state, w1)
               else if first_run
               then Inr (state(HN_STATE_KEY \<mapsto> last_n MAX_IDS_PER_FEED (seen_list @ new)), w1)
               else (case hn_loop env cfg (seen_list, w1) (rev new) of
                       Inl e \<Rightarrow> Inl e
                     | Inr (seen_list', w2) \<Rightarrow>
                         Inr (state(HN_STATE_KEY \<mapsto> last_n MAX_IDS_PER_FEED seen_list'), w2)))"

section \<open>State file\<close>

text \<open>
  The file system maps a path to the content of the file there. \<open>save_state\<close> is the
  sequence of its file operations: \<open>mkdir\<close>, \<open>open(tmp, "w")\<close> (the file is created
  or emptied), one write for each chunk \<open>json.dump\<close> produces (the encoder and its
  chunks are a parameter), and \<open>tmp.replace(STATE_FILE)\<close>, which is one step. A crash, or
  an exception, after \<open>k\<close> operations leaves the file system of the first \<open>k\<close>.
\<close>

type_synonym fs = "string \<rightharpoonup> string"

datatype fs_op = Mkdir string | OpenW string | Write string string | Replace string string

fun fs_step :: "fs \<Rightarrow> fs_op \<Rightarrow> fs" where
  "fs_step f (Mkdir d) = f"
| "fs_step f (OpenW p) = f(p \<mapsto> [])"
| "fs_step f (Write p d) = f(p \<mapsto> get_or (f p) [] @ d)"
| "fs_step f (Replace src dst) = (f(dst := f src))(src := None)"

definition run_ops :: "fs \<Rightarrow> fs_op list \<Rightarrow> fs" where
  "run_ops f ops = foldl fs_step f ops"

definition STATE_FILE :: "config \<Rightarrow> string" where
  "STATE_FILE cfg = DATA_DIR cfg @ ''/sent.json''"

text \<open>\<open>STATE_FILE.with_suffix(".tmp")\<close>\<close>

definition tmp_file :: "config \<Rightarrow> string" where
  "tmp_file cfg = DATA_DIR cfg @ ''/sent.tmp''"

definition save_state :: "(seen_state \<Rightarrow> string list) \<Rightarrow> config \<Rightarrow> seen_state \<Rightarrow> fs_op list" where
  "save_state json_dump cfg state =
     [Mkdir (DATA_DIR cfg), OpenW (tmp_file cfg)]
     @ map (Write (tmp_file cfg)) (json_dump state)
     @ [Replace (tmp_file cfg) (STATE_FILE cfg)]"

text \<open>An operation that changes no file other than the one at \<open>p\<close>.\<close>

definition only_touches :: "string \<Rightarrow> fs_op \<Rightarrow> bool" where
  "only_touches p op = (case op of Mkdir d \<Rightarrow> True | OpenW q \<Rightarrow> q = p
                         | Write q d \<Rightarrow> q = p | Replace a b \<Rightarrow> False)"


section \<open>Concrete inputs\<close>

text \<open>A configuration, a starting world and networks, for the evaluations below.\<close>

definition cfg0 :: config where
  "cfg0 = \<lparr>GEEKNEWS_WEBHOOK = ''http://mm/gn'', HACKERNEWS_WEBHOOK = ''http://mm/hn'',
           HN_MIN_SCORE_COMMENTS = 100, DATA_DIR = ''./data''\<rparr>"

definition w0 :: world where
  "w0 = \<lparr>clock = 0, posts = []\<rparr>"

definition net_down :: net where
  "net_down = \<lparr>feed_resp = (\<lambda>t. None), top_resp = (\<lambda>t. None),
               item_resp = (\<lambda>t i. None), post_resp = (\<lambda>t u x. False)\<rparr>"

definition dump0 :: "seen_state \<Rightarrow> string list" where
  "dump0 s = [''{'', ''}'']"


definition item0 :: hn_item where
  "item0 = \<lparr>h_title = Some ''T'', h_url = None, h_by = Some ''bob'', h_score = Some 80,
             h_descendants = Some 20, h_id = Some 7, h_dead = False, h_deleted = False\<rparr>"

definition net_hn :: "hn_item option \<Rightarrow> bool \<Rightarrow> net" where
  "net_hn item ok = \<lparr>feed_resp = (\<lambda>t. None), top_resp = (\<lambda>t. Some [7]),
                     item_resp = (\<lambda>t i. item), post_resp = (\<lambda>t u x. ok)\<rparr>"

definition state_hn :: seen_state where
  "state_hn = [HN_STATE_KEY \<mapsto> [''5'']]"


definition net_many :: net where
  "net_many = \<lparr>feed_resp = (\<lambda>t. None), top_resp = (\<lambda>t. Some (map int [1..<1002])),
               item_resp = (\<lambda>t i. None), post_resp = (\<lambda>t u x. True)\<rparr>"

definition entry0 :: entry where
  "entry0 = \<lparr>e_id = Some ''a'', e_link = Some ''http://x/a'', e_title = Some ''A'',
              e_author = None, e_published = None, e_content = [], e_summary = None\<rparr>"

definition net_gn :: "entry list \<Rightarrow> (nat \<Rightarrow> bool) \<Rightarrow> net" where
  "net_gn es ok = \<lparr>feed_resp = (\<lambda>t. Some \<lparr>bozo = False, entries = es\<rparr>), top_resp = (\<lambda>t. Some [7]),
                   item_resp = (\<lambda>t i. None), post_resp = (\<lambda>t u x. ok t)\<rparr>"


definition state_full :: seen_state where
  "state_full = [GEEKNEWS_FEED_URL \<mapsto> replicate 1000 ''x'']"


definition ok_always :: "nat \<Rightarrow> bool" where
  "ok_always t = True"

definition ok_at_2 :: "nat \<Rightarrow> bool" where
  "ok_at_2 t = (t = 2)"


definition state_gn :: seen_state where
  "state_gn = [GEEKNEWS_FEED_URL \<mapsto> [''z'']]"


section \<open>Decimal strings\<close>

lemma digit_val_digit_char: "d < 10 \<Longrightarrow> digit_val (digit_char d) = Some d"
proof -
  assume "d < 10"
  then have "d \<in> {0,1,2,3,4,5,6,7,8,9}" by auto
  then show ?thesis
    by (auto simp: digit_val_def digit_char_def)
qed

lemma parse_nat_snoc:
  "parse_nat acc (xs @ [c]) =
     (case parse_nat acc xs of None \<Rightarrow> None
      | Some a \<Rightarrow> (case digit_val c of None \<Rightarrow> None | Some d \<Rightarrow> Some (10 * a + d)))"
  by (induction xs arbitrary: acc) (auto split: option.splits)

lemma parse_nat_str_nat: "parse_nat 0 (str_nat n) = Some n"
proof (induction n rule: str_nat.induct)
  case (1 n)
  show ?case
  proof (cases "n < 10")
    case True
    then show ?thesis
      by (subst str_nat.simps) (simp add: digit_val_digit_char)
  next
    case False
    with "1" have "parse_nat 0 (str_nat (n div 10)) = Some (n div 10)" by simp
    with False show ?thesis
      by (subst str_nat.simps) (simp add: parse_nat_snoc digit_val_digit_char)
  qed
qed

lemma str_nat_hd: "\<exists>c cs. str_nat n = c # cs \<and> digit_val c \<noteq> None"
proof (induction n rule: str_nat.induct)
  case (1 n)
  show ?case
  proof (cases "n < 10")
    case True
    then show ?thesis
      by (subst str_nat.simps) (simp add: digit_val_digit_char)
  next
    case False
    with "1" obtain c cs where "str_nat (n div 10) = c # cs" "digit_val c \<noteq> None" by auto
    with False show ?thesis
      by (subst str_nat.simps) simp
  qed
qed

lemma py_int_py_str: "py_int (py_str i) = Some i"
proof (cases "i < 0")
  case True
  obtain c cs where "str_nat (nat (- i)) = c # cs" using str_nat_hd by blast
  with True show ?thesis
    using parse_nat_str_nat [of "nat (- i)"] by (simp add: py_int_def py_str_def)
next
  case False
  obtain c cs where h: "str_nat (nat i) = c # cs" "digit_val c \<noteq> None"
    using str_nat_hd by blast
  then have "c \<noteq> CHR ''-''" by (auto simp: digit_val_def)
  with False h show ?thesis
    using parse_nat_str_nat [of "nat i"] by (simp add: py_int_def py_str_def)
qed

lemma py_str_inj: "py_str a = py_str b \<Longrightarrow> a = b"
  by (metis py_int_py_str option.inject)

section \<open>Slices and loops\<close>

lemma last_n_short: "length xs \<le> n \<Longrightarrow> last_n n xs = xs"
  by (simp add: last_n_def)

lemma length_last_n: "length (last_n n xs) = min n (length xs)"
  by (simp add: last_n_def)

lemma last_n_suffix: "\<exists>dropped. xs = dropped @ last_n n xs \<and> length dropped = length xs - n"
  by (rule exI [of _ "take (length xs - n) xs"]) (simp add: last_n_def)

lemma set_last_n: "set (last_n n xs) \<subseteq> set xs"
  by (simp add: last_n_def set_drop_subset)

lemma gn_step_fst:
  "fst (gn_step env cfg st e) =
     (if post_resp env (clock (snd st)) (GEEKNEWS_WEBHOOK cfg) (format_geeknews e)
      then fst st @ [entry_ident e] else fst st)"
  by (simp add: gn_step_def send_to_mattermost_def Let_def)

lemma gn_step_snd:
  "snd (gn_step env cfg st e) =
     (snd st)\<lparr>clock := Suc (clock (snd st)),
              posts := posts (snd st) @ [(GEEKNEWS_WEBHOOK cfg, format_geeknews e)]\<rparr>"
  by (simp add: gn_step_def send_to_mattermost_def Let_def)

lemma gn_loop_append:
  "gn_loop env cfg st (xs @ ys) = gn_loop env cfg (gn_loop env cfg st xs) ys"
  by (induction xs arbitrary: st) auto


lemma gn_loop_clock: "clock (snd (gn_loop env cfg st xs)) = clock (snd st) + length xs"
  by (induction xs arbitrary: st) (auto simp: gn_step_snd)

lemma gn_loop_seen:
  "\<exists>app. fst (gn_loop env cfg st xs) = fst st @ app
         \<and> set app \<subseteq> entry_ident ` set xs \<and> length app \<le> length xs"
proof (induction xs arbitrary: st)
  case Nil
  show ?case by simp
next
  case (Cons e es)
  obtain app where a: "fst (gn_loop env cfg (gn_step env cfg st e) es) = fst (gn_step env cfg st e) @ app"
      "set app \<subseteq> entry_ident ` set es" "length app \<le> length es"
    using Cons.IH by blast
  show ?case
  proof (cases "post_resp env (clock (snd st)) (GEEKNEWS_WEBHOOK cfg) (format_geeknews e)")
    case True
    with a have "fst (gn_loop env cfg st (e # es)) = fst st @ (entry_ident e # app)"
      by (simp add: gn_step_fst)
    moreover have "set (entry_ident e # app) \<subseteq> entry_ident ` set (e # es)" using a by auto
    moreover have "length (entry_ident e # app) \<le> length (e # es)" using a by simp
    ultimately show ?thesis by blast
  next
    case False
    with a have "fst (gn_loop env cfg st (e # es)) = fst st @ app"
      by (simp add: gn_step_fst)
    moreover have "set app \<subseteq> entry_ident ` set (e # es)" using a by auto
    moreover have "length app \<le> length (e # es)" using a by simp
    ultimately show ?thesis by blast
  qed
qed

lemma last_n_keeps: "length ys < n \<Longrightarrow> x \<in> set (last_n n (xs @ x # ys))"
  by (simp add: last_n_def)

lemma hn_step_ok: "py_int s = Some n \<Longrightarrow> \<exists>st'. hn_step env cfg st s = Inr st'"
  by (simp add: hn_step_def fetch_hn_item_def Let_def split: option.splits prod.splits)

lemma hn_step_seen:
  "hn_step env cfg st s = Inr st' \<Longrightarrow> fst st' = fst st \<or> fst st' = fst st @ [s]"
  by (auto simp: hn_step_def fetch_hn_item_def Let_def
           split: option.splits prod.splits if_splits)

lemma hn_step_posts:
  "hn_step env cfg st s = Inr st' \<Longrightarrow> \<exists>ps. posts (snd st') = posts (snd st) @ ps"
  by (auto simp: hn_step_def fetch_hn_item_def send_to_mattermost_def tick_def Let_def
           split: option.splits prod.splits if_splits)

lemma hn_loop_append:
  "hn_loop env cfg st (xs @ ys) =
     (case hn_loop env cfg st xs of Inl e \<Rightarrow> Inl e | Inr st' \<Rightarrow> hn_loop env cfg st' ys)"
  by (induction xs arbitrary: st) (auto split: sum.splits)

lemma hn_loop_ok:
  "\<forall>s \<in> set xs. py_int s \<noteq> None \<Longrightarrow> \<exists>st'. hn_loop env cfg st xs = Inr st'"
proof (induction xs arbitrary: st)
  case Nil
  show ?case by simp
next
  case (Cons s ss)
  then obtain n where "py_int s = Some n" by auto
  then obtain st1 where "hn_step env cfg st s = Inr st1" using hn_step_ok by blast
  moreover have "\<forall>s \<in> set ss. py_int s \<noteq> None" using Cons.prems by simp
  then obtain st2 where "hn_loop env cfg st1 ss = Inr st2" using Cons.IH by blast
  ultimately show ?case by simp
qed

lemma hn_loop_seen:
  "hn_loop env cfg st xs = Inr st' \<Longrightarrow>
     \<exists>app. fst st' = fst st @ app \<and> set app \<subseteq> set xs \<and> length app \<le> length xs"
proof (induction xs arbitrary: st)
  case Nil
  then show ?case by simp
next
  case (Cons s ss)
  then obtain st1 where s1: "hn_step env cfg st s = Inr st1" and l: "hn_loop env cfg st1 ss = Inr st'"
    by (auto split: sum.splits)
  from Cons.IH [OF l] obtain app where a: "fst st' = fst st1 @ app" "set app \<subseteq> set ss"
      "length app \<le> length ss" by blast
  from hn_step_seen [OF s1] show ?case
  proof
    assume "fst st1 = fst st"
    with a have "fst st' = fst st @ app \<and> set app \<subseteq> set (s # ss) \<and> length app \<le> length (s # ss)"
      by auto
    then show ?thesis by blast
  next
    assume "fst st1 = fst st @ [s]"
    with a have "fst st' = fst st @ (s # app) \<and> set (s # app) \<subseteq> set (s # ss)
                 \<and> length (s # app) \<le> length (s # ss)"
      by auto
    then show ?thesis by blast
  qed
qed

lemma hn_loop_posts:
  "hn_loop env cfg st xs = Inr st' \<Longrightarrow> \<exists>ps. posts (snd st') = posts (snd st) @ ps"
proof (induction xs arbitrary: st)
  case Nil
  then show ?case by simp
next
  case (Cons s ss)
  then obtain st1 where s1: "hn_step env cfg st s = Inr st1" and l: "hn_loop env cfg st1 ss = Inr st'"
    by (auto split: sum.splits)
  from hn_step_posts [OF s1] Cons.IH [OF l] show ?case by auto
qed

lemma new_ids_py_int: "s \<in> set (new_ids seen_list top_ids) \<Longrightarrow> py_int s \<noteq> None"
  by (auto simp: new_ids_def py_int_py_str)

lemma new_ids_not_seen: "s \<in> set (new_ids seen_list top_ids) \<Longrightarrow> s \<notin> set seen_list"
  by (auto simp: new_ids_def)

lemma new_entries_not_seen:
  "e \<in> set (new_entries seen_list es) \<Longrightarrow> entry_ident e \<notin> set seen_list"
  by (auto simp: new_entries_def)

lemma new_entries_fresh: "new_entries [] es = es"
  by (simp add: new_entries_def)

lemma new_ids_fresh: "new_ids [] top_ids = map py_str top_ids"
  by (simp add: new_ids_def)

lemma poll_geeknews_steady:
  assumes "state GEEKNEWS_FEED_URL = Some seen0"
      and "feed_resp env (clock w) = Some fd"
      and "new_entries seen0 (entries fd) \<noteq> []"
  shows "poll_geeknews env cfg state w =
           (state(GEEKNEWS_FEED_URL \<mapsto> last_n MAX_IDS_PER_FEED
                    (fst (gn_loop env cfg (seen0, tick w) (rev (new_entries seen0 (entries fd)))))),
            snd (gn_loop env cfg (seen0, tick w) (rev (new_entries seen0 (entries fd)))))"
proof -
  from assms(3) have "entries fd \<noteq> []" by (auto simp: new_entries_def)
  with assms show ?thesis
    by (simp add: poll_geeknews_def fetch_feed_def get_or_def Let_def split: prod.splits)
qed

lemma poll_hackernews_steady:
  assumes "state HN_STATE_KEY = Some seen0"
      and "top_resp env (clock w) = Some top_ids"
      and "new_ids seen0 top_ids \<noteq> []"
      and "hn_loop env cfg (seen0, tick w) (rev (new_ids seen0 top_ids)) = Inr st'"
  shows "poll_hackernews env cfg state w =
           Inr (state(HN_STATE_KEY \<mapsto> last_n MAX_IDS_PER_FEED (fst st')), snd st')"
proof -
  from assms(3) have "top_ids \<noteq> []" by (auto simp: new_ids_def)
  with assms show ?thesis
    by (simp add: poll_hackernews_def fetch_hn_top_ids_def get_or_def Let_def split: prod.splits)
qed

lemma poll_geeknews_first:
  assumes "state GEEKNEWS_FEED_URL = None"
      and "feed_resp env (clock w) = Some fd"
      and "entries fd \<noteq> []"
  shows "poll_geeknews env cfg state w =
           (state(GEEKNEWS_FEED_URL \<mapsto> last_n MAX_IDS_PER_FEED (map entry_ident (entries fd))),
            tick w)"
  using assms
  by (simp add: poll_geeknews_def fetch_feed_def get_or_def Let_def new_entries_fresh)

lemma poll_hackernews_first:
  assumes "state HN_STATE_KEY = None"
      and "top_resp env (clock w) = Some top_ids"
      and "top_ids \<noteq> []"
  shows "poll_hackernews env cfg state w =
           Inr (state(HN_STATE_KEY \<mapsto> last_n MAX_IDS_PER_FEED (map py_str top_ids)), tick w)"
  using assms
  by (simp add: poll_hackernews_def fetch_hn_top_ids_def get_or_def Let_def new_ids_fresh)

section \<open>File operations\<close>

lemma state_tmp_distinct: "STATE_FILE cfg \<noteq> tmp_file cfg"
  by (simp add: STATE_FILE_def tmp_file_def)

lemma run_writes:
  "g p = Some x \<Longrightarrow> foldl fs_step g (map (Write p) cs) = g(p \<mapsto> x @ concat cs)"
proof (induction cs arbitrary: g x)
  case Nil
  then show ?case by auto
next
  case (Cons c cs)
  have "(g(p \<mapsto> x @ c)) p = Some (x @ c)" by simp
  then have "foldl fs_step (g(p \<mapsto> x @ c)) (map (Write p) cs)
               = (g(p \<mapsto> x @ c))(p \<mapsto> (x @ c) @ concat cs)"
    by (rule Cons.IH)
  with Cons.prems show ?case by (simp add: get_or_def)
qed

lemma run_only_touches:
  "\<forall>op \<in> set ops. only_touches p op \<Longrightarrow> q \<noteq> p \<Longrightarrow> foldl fs_step f ops q = f q"
proof (induction ops arbitrary: f)
  case Nil
  show ?case by simp
next
  case (Cons op ops)
  then have "fs_step f op q = f q"
    by (cases op) (auto simp: only_touches_def)
  with Cons show ?case by simp
qed

lemma save_state_before_rename:
  "\<forall>op \<in> set (butlast (save_state json_dump cfg state)). only_touches (tmp_file cfg) op"
  by (auto simp: save_state_def only_touches_def butlast_append)

lemma run_before_rename:
  "run_ops f (butlast (save_state json_dump cfg state)) =
     f(tmp_file cfg \<mapsto> concat (json_dump state))"
proof -
  have "(f(tmp_file cfg \<mapsto> [])) (tmp_file cfg) = Some []" by simp
  then have "foldl fs_step (f(tmp_file cfg \<mapsto> [])) (map (Write (tmp_file cfg)) (json_dump state))
               = (f(tmp_file cfg \<mapsto> []))(tmp_file cfg \<mapsto> [] @ concat (json_dump state))"
    by (rule run_writes)
  then show ?thesis
    by (simp add: save_state_def run_ops_def butlast_append)
qed


section \<open>One item in the cycle\<close>

lemma gn_context:
  assumes steady: "state GEEKNEWS_FEED_URL = Some seen0"
      and feed: "feed_resp env (clock w) = Some fd"
      and order: "rev (new_entries seen0 (entries fd)) = pre @ e # post"
  shows "\<exists>rest w'. poll_geeknews env cfg state w =
            (state(GEEKNEWS_FEED_URL \<mapsto> last_n MAX_IDS_PER_FEED
               (fst (gn_step env cfg (gn_loop env cfg (seen0, tick w) pre) e) @ rest)), w')
          \<and> set rest \<subseteq> entry_ident ` set post \<and> length rest \<le> length post"
proof -
  let ?new = "new_entries seen0 (entries fd)"
  let ?st2 = "gn_step env cfg (gn_loop env cfg (seen0, tick w) pre) e"
  from order have ne: "?new \<noteq> []" by auto
  have "gn_loop env cfg (seen0, tick w) (rev ?new) = gn_loop env cfg ?st2 post"
    by (simp add: order gn_loop_append)
  moreover obtain rest where r: "fst (gn_loop env cfg ?st2 post) = fst ?st2 @ rest"
      "set rest \<subseteq> entry_ident ` set post" "length rest \<le> length post"
    using gn_loop_seen by blast
  moreover have "poll_geeknews env cfg state w =
      (state(GEEKNEWS_FEED_URL \<mapsto> last_n MAX_IDS_PER_FEED
               (fst (gn_loop env cfg (seen0, tick w) (rev ?new)))),
       snd (gn_loop env cfg (seen0, tick w) (rev ?new)))"
    using steady feed ne by (rule poll_geeknews_steady)
  ultimately show ?thesis by auto
qed

lemma gn_before:
  "\<exists>app. fst (gn_loop env cfg (seen0, w1) pre) = seen0 @ app \<and> set app \<subseteq> entry_ident ` set pre"
  using gn_loop_seen [of env cfg "(seen0, w1)" pre] by auto

lemma hn_context:
  assumes steady: "state HN_STATE_KEY = Some seen0"
      and top: "top_resp env (clock w) = Some top_ids"
      and order: "rev (new_ids seen0 top_ids) = pre @ str_id # post"
  shows "\<exists>st1 n st2 rest w'.
           hn_loop env cfg (seen0, tick w) pre = Inr st1
         \<and> py_int str_id = Some n
         \<and> hn_step env cfg st1 str_id = Inr st2
         \<and> poll_hackernews env cfg state w =
             Inr (state(HN_STATE_KEY \<mapsto> last_n MAX_IDS_PER_FEED (fst st2 @ rest)), w')
         \<and> set rest \<subseteq> set post \<and> length rest \<le> length post
         \<and> (\<exists>app. fst st1 = seen0 @ app \<and> set app \<subseteq> set pre)"
proof -
  let ?new = "new_ids seen0 top_ids"
  from order have ne: "?new \<noteq> []" by auto
  have all: "\<forall>s \<in> set (rev ?new). py_int s \<noteq> None"
    using new_ids_py_int by auto
  then obtain st' where l: "hn_loop env cfg (seen0, tick w) (rev ?new) = Inr st'"
    using hn_loop_ok by blast
  from l obtain st1 where l1: "hn_loop env cfg (seen0, tick w) pre = Inr st1"
      and l2: "hn_loop env cfg st1 (str_id # post) = Inr st'"
    unfolding order by (auto simp: hn_loop_append split: sum.splits)
  from l2 obtain st2 where s: "hn_step env cfg st1 str_id = Inr st2"
      and l3: "hn_loop env cfg st2 post = Inr st'"
    by (auto split: sum.splits)
  from all order obtain n where n: "py_int str_id = Some n" by auto
  from hn_loop_seen [OF l3] obtain rest where r: "fst st' = fst st2 @ rest"
      "set rest \<subseteq> set post" "length rest \<le> length post" by blast
  from hn_loop_seen [OF l1] obtain app where a: "fst st1 = seen0 @ app" "set app \<subseteq> set pre"
    by auto
  have "poll_hackernews env cfg state w =
          Inr (state(HN_STATE_KEY \<mapsto> last_n MAX_IDS_PER_FEED (fst st')), snd st')"
    using steady top ne l by (rule poll_hackernews_steady)
  with r have "poll_hackernews env cfg state w =
          Inr (state(HN_STATE_KEY \<mapsto> last_n MAX_IDS_PER_FEED (fst st2 @ rest)), snd st')"
    by simp
  with l1 n s r a show ?thesis by blast
qed

lemma hn_step_missing:
  "py_int str_id = Some n \<Longrightarrow> item_resp env (clock (snd st)) n = None \<Longrightarrow>
     hn_step env cfg st str_id = Inr (fst st @ [str_id], tick (snd st))"
  by (simp add: hn_step_def fetch_hn_item_def)

lemma hn_step_dead:
  "py_int str_id = Some n \<Longrightarrow> item_resp env (clock (snd st)) n = Some item \<Longrightarrow>
     h_dead item \<or> h_deleted item \<Longrightarrow>
     hn_step env cfg st str_id = Inr (fst st @ [str_id], tick (snd st))"
  by (simp add: hn_step_def fetch_hn_item_def)

lemma hn_step_below:
  "py_int str_id = Some n \<Longrightarrow> item_resp env (clock (snd st)) n = Some item \<Longrightarrow>
     \<not> h_dead item \<Longrightarrow> \<not> h_deleted item \<Longrightarrow>
     get_or (h_score item) 0 + get_or (h_descendants item) 0 < HN_MIN_SCORE_COMMENTS cfg \<Longrightarrow>
     hn_step env cfg st str_id = Inr (fst st, tick (snd st))"
  by (simp add: hn_step_def fetch_hn_item_def Let_def)

lemma hn_step_send:
  "py_int str_id = Some n \<Longrightarrow> item_resp env (clock (snd st)) n = Some item \<Longrightarrow>
     \<not> h_dead item \<Longrightarrow> \<not> h_deleted item \<Longrightarrow>
     HN_MIN_SCORE_COMMENTS cfg \<le> get_or (h_score item) 0 + get_or (h_descendants item) 0 \<Longrightarrow>
     hn_step env cfg st str_id =
       Inr (if post_resp env (Suc (clock (snd st))) (HACKERNEWS_WEBHOOK cfg) (format_hackernews item)
            then fst st @ [str_id] else fst st,
            (snd st)\<lparr>clock := Suc (Suc (clock (snd st))),
                     posts := posts (snd st) @ [(HACKERNEWS_WEBHOOK cfg, format_hackernews item)]\<rparr>)"
  by (simp add: hn_step_def fetch_hn_item_def send_to_mattermost_def tick_def Let_def)

section \<open>Evaluation\<close>

lemma py_str_7: "py_str 7 = ''7''"
  by (simp add: py_str_def str_nat.simps digit_char_def)

lemma py_int_7: "py_int ''7'' = Some 7"
  by (simp add: py_int_def digit_val_def)

lemma new_ids_7: "new_ids [''5''] [7] = [''7'']"
  by (simp add: new_ids_def py_str_7)

lemmas hn_eval = poll_hackernews_def fetch_hn_top_ids_def fetch_hn_item_def hn_step_def
  send_to_mattermost_def get_or_def Let_def new_ids_7 py_int_7 tick_def last_n_def
  MAX_IDS_PER_FEED_def net_hn_def state_hn_def w0_def cfg0_def item0_def


lemma format_item0:
  "format_hackernews item0 =
     ''#### [T](https://news.ycombinator.com/item?id=7)'' @ [CHR 0x0A]
     @ ''> 80 points | by **bob** | [20 comments](https://news.ycombinator.com/item?id=7)''"
  by (simp add: format_hackernews_def item0_def get_or_def py_str_def str_nat.simps digit_char_def)


section \<open>The shape of one poll\<close>

lemma poll_geeknews_shape:
  "fst (poll_geeknews env cfg state w) = state
   \<or> (\<exists>app. fst (poll_geeknews env cfg state w) =
         state(GEEKNEWS_FEED_URL \<mapsto>
           last_n MAX_IDS_PER_FEED (get_or (state GEEKNEWS_FEED_URL) [] @ app)))"
proof (cases "feed_resp env (clock w)")
  case None
  then show ?thesis by (simp add: poll_geeknews_def fetch_feed_def)
next
  case (Some fd)
  show ?thesis
  proof (cases "state GEEKNEWS_FEED_URL")
    case None
    show ?thesis
    proof (cases "entries fd = []")
      case True
      with Some show ?thesis
        by (simp add: poll_geeknews_def fetch_feed_def Let_def new_entries_def)
    next
      case False
      have "poll_geeknews env cfg state w =
           (state(GEEKNEWS_FEED_URL \<mapsto> last_n MAX_IDS_PER_FEED (map entry_ident (entries fd))),
            tick w)"
        using None Some False by (rule poll_geeknews_first)
      with None show ?thesis by (auto simp: get_or_def)
    qed
  next
    case (Some seen0)
    note steady = this
    show ?thesis
    proof (cases "new_entries seen0 (entries fd) = []")
      case True
      with steady \<open>feed_resp env (clock w) = Some fd\<close> show ?thesis
        by (simp add: poll_geeknews_def fetch_feed_def Let_def get_or_def)
    next
      case False
      let ?l = "gn_loop env cfg (seen0, tick w) (rev (new_entries seen0 (entries fd)))"
      have p: "poll_geeknews env cfg state w =
           (state(GEEKNEWS_FEED_URL \<mapsto> last_n MAX_IDS_PER_FEED (fst ?l)), snd ?l)"
        using steady \<open>feed_resp env (clock w) = Some fd\<close> False by (rule poll_geeknews_steady)
      obtain app where "fst ?l = seen0 @ app"
        using gn_loop_seen [of env cfg "(seen0, tick w)"] by auto
      with p steady show ?thesis by (auto simp: get_or_def)
    qed
  qed
qed

lemma poll_hackernews_shape:
  "\<exists>state' w'. poll_hackernews env cfg state w = Inr (state', w')
     \<and> (state' = state
        \<or> (\<exists>app. state' = state(HN_STATE_KEY \<mapsto>
                    last_n MAX_IDS_PER_FEED (get_or (state HN_STATE_KEY) [] @ app))))"
proof (cases "get_or (top_resp env (clock w)) [] = []")
  case True
  then show ?thesis by (simp add: poll_hackernews_def fetch_hn_top_ids_def)
next
  case False
  then obtain top_ids where top: "top_resp env (clock w) = Some top_ids" and ne: "top_ids \<noteq> []"
    by (cases "top_resp env (clock w)") (auto simp: get_or_def)
  show ?thesis
  proof (cases "state HN_STATE_KEY")
    case None
    have "poll_hackernews env cfg state w =
           Inr (state(HN_STATE_KEY \<mapsto> last_n MAX_IDS_PER_FEED (map py_str top_ids)), tick w)"
      using None top ne by (rule poll_hackernews_first)
    with None show ?thesis by (auto simp: get_or_def)
  next
    case (Some seen0)
    show ?thesis
    proof (cases "new_ids seen0 top_ids = []")
      case True
      with Some top ne show ?thesis
        by (simp add: poll_hackernews_def fetch_hn_top_ids_def Let_def get_or_def)
    next
      case False
      have "\<forall>s \<in> set (rev (new_ids seen0 top_ids)). py_int s \<noteq> None"
        using new_ids_py_int by auto
      then obtain st' where l: "hn_loop env cfg (seen0, tick w) (rev (new_ids seen0 top_ids)) = Inr st'"
        using hn_loop_ok by blast
      have p: "poll_hackernews env cfg state w =
           Inr (state(HN_STATE_KEY \<mapsto> last_n MAX_IDS_PER_FEED (fst st')), snd st')"
        using Some top False l by (rule poll_hackernews_steady)
      obtain app where "fst st' = seen0 @ app" using hn_loop_seen [OF l] by auto
      with p Some show ?thesis by (auto simp: get_or_def)
    qed
  qed
qed

lemma fifo_update_bound:
  assumes "state' = state \<or> (\<exists>app. state' = state(key \<mapsto> last_n MAX_IDS_PER_FEED (old @ app)))"
  shows "(\<exists>app dropped stored.
            old @ app = dropped @ stored
          \<and> length stored = min MAX_IDS_PER_FEED (length (old @ app))
          \<and> (state' = state \<or> state' = state(key \<mapsto> stored)))
       \<and> ((\<forall>k l. state k = Some l \<longrightarrow> length l \<le> MAX_IDS_PER_FEED) \<longrightarrow>
            (\<forall>k l. state' k = Some l \<longrightarrow> length l \<le> MAX_IDS_PER_FEED))"
proof
  from assms show "\<exists>app dropped stored.
            old @ app = dropped @ stored
          \<and> length stored = min MAX_IDS_PER_FEED (length (old @ app))
          \<and> (state' = state \<or> state' = state(key \<mapsto> stored))"
  proof
    assume "state' = state"
    then have "old @ [] = take (length old - MAX_IDS_PER_FEED) old @ last_n MAX_IDS_PER_FEED old
          \<and> length (last_n MAX_IDS_PER_FEED old) = min MAX_IDS_PER_FEED (length (old @ []))
          \<and> (state' = state \<or> state' = state(key \<mapsto> last_n MAX_IDS_PER_FEED old))"
      by (simp add: last_n_def)
    then show ?thesis by blast
  next
    assume "\<exists>app. state' = state(key \<mapsto> last_n MAX_IDS_PER_FEED (old @ app))"
    then obtain app where a: "state' = state(key \<mapsto> last_n MAX_IDS_PER_FEED (old @ app))" ..
    obtain dropped where "old @ app = dropped @ last_n MAX_IDS_PER_FEED (old @ app)"
      using last_n_suffix by blast
    with a have "old @ app = dropped @ last_n MAX_IDS_PER_FEED (old @ app)
          \<and> length (last_n MAX_IDS_PER_FEED (old @ app)) = min MAX_IDS_PER_FEED (length (old @ app))
          \<and> (state' = state \<or> state' = state(key \<mapsto> last_n MAX_IDS_PER_FEED (old @ app)))"
      by (simp add: length_last_n)
    then show ?thesis by blast
  qed
  from assms show "(\<forall>k l. state k = Some l \<longrightarrow> length l \<le> MAX_IDS_PER_FEED) \<longrightarrow>
            (\<forall>k l. state' k = Some l \<longrightarrow> length l \<le> MAX_IDS_PER_FEED)"
    by (auto simp: length_last_n split: if_splits)
qed


lemma format_entry0: "format_geeknews entry0 = ''#### [A](http://x/a)''"
  by (simp add: format_geeknews_def entry0_def get_or_def truthy_def strip_html_def py_strip_def)

lemma entry_ident_entry0: "entry_ident entry0 = ''a''"
  by (simp add: entry_ident_def entry0_def truthy_def get_or_def)


lemma stored_absent:
  assumes "x \<notin> set old_seen" and "x \<notin> set app" and "x \<notin> set rest"
  shows "x \<notin> set (last_n n (old_seen @ app @ rest))"
  using assms set_last_n [of n "old_seen @ app @ rest"] by auto


lemmas gn_eval = poll_geeknews_def fetch_feed_def gn_step_def send_to_mattermost_def get_or_def
  Let_def new_entries_def entry_ident_entry0 format_entry0 tick_def last_n_def
  MAX_IDS_PER_FEED_def net_gn_def state_gn_def w0_def cfg0_def ok_always_def ok_at_2_def


section \<open>Entries with the same identifier\<close>





section \<open>What a poll stores\<close>

lemma last_n_split:
  "xs = take (length xs - n) xs @ last_n n xs
   \<and> length (last_n n xs) = min n (length xs)"
  by (simp add: last_n_def)

lemma poll_geeknews_nothing_new:
  assumes "\<forall>fd. feed_resp env (clock w) = Some fd \<longrightarrow>
             new_entries (get_or (state GEEKNEWS_FEED_URL) []) (entries fd) = []"
  shows "poll_geeknews env cfg state w = (state, tick w)"
proof (cases "feed_resp env (clock w)")
  case None
  then show ?thesis by (simp add: poll_geeknews_def fetch_feed_def)
next
  case (Some fd)
  with assms have "new_entries (get_or (state GEEKNEWS_FEED_URL) []) (entries fd) = []" by simp
  with Some show ?thesis by (simp add: poll_geeknews_def fetch_feed_def Let_def)
qed

lemma poll_hackernews_nothing_new:
  assumes "new_ids (get_or (state HN_STATE_KEY) []) (get_or (top_resp env (clock w)) []) = []"
  shows "poll_hackernews env cfg state w = Inr (state, tick w)"
  using assms by (simp add: poll_hackernews_def fetch_hn_top_ids_def Let_def)

lemma poll_geeknews_update:
  assumes feed: "feed_resp env (clock w) = Some fd"
      and new: "new_entries (get_or (state GEEKNEWS_FEED_URL) []) (entries fd) \<noteq> []"
  shows "\<exists>app. fst (poll_geeknews env cfg state w) =
                 state(GEEKNEWS_FEED_URL \<mapsto>
                   last_n MAX_IDS_PER_FEED (get_or (state GEEKNEWS_FEED_URL) [] @ app))
             \<and> set app \<subseteq> entry_ident ` set (new_entries (get_or (state GEEKNEWS_FEED_URL) []) (entries fd))
             \<and> (state GEEKNEWS_FEED_URL = None \<longrightarrow> app = map entry_ident (entries fd))
             \<and> (state GEEKNEWS_FEED_URL \<noteq> None \<longrightarrow>
                  fst (gn_loop env cfg (get_or (state GEEKNEWS_FEED_URL) [], tick w)
                         (rev (new_entries (get_or (state GEEKNEWS_FEED_URL) []) (entries fd))))
                    = get_or (state GEEKNEWS_FEED_URL) [] @ app)"
proof (cases "state GEEKNEWS_FEED_URL")
  case None
  with new have ne: "entries fd \<noteq> []" by (auto simp: get_or_def new_entries_def)
  have "poll_geeknews env cfg state w =
           (state(GEEKNEWS_FEED_URL \<mapsto> last_n MAX_IDS_PER_FEED (map entry_ident (entries fd))),
            tick w)"
    using None feed ne by (rule poll_geeknews_first)
  with None have "fst (poll_geeknews env cfg state w) =
                 state(GEEKNEWS_FEED_URL \<mapsto>
                   last_n MAX_IDS_PER_FEED (get_or (state GEEKNEWS_FEED_URL) [] @ map entry_ident (entries fd)))
             \<and> set (map entry_ident (entries fd)) \<subseteq> entry_ident ` set (new_entries (get_or (state GEEKNEWS_FEED_URL) []) (entries fd))
             \<and> (state GEEKNEWS_FEED_URL = None \<longrightarrow> map entry_ident (entries fd) = map entry_ident (entries fd))
             \<and> (state GEEKNEWS_FEED_URL \<noteq> None \<longrightarrow>
                  fst (gn_loop env cfg (get_or (state GEEKNEWS_FEED_URL) [], tick w)
                         (rev (new_entries (get_or (state GEEKNEWS_FEED_URL) []) (entries fd))))
                    = get_or (state GEEKNEWS_FEED_URL) [] @ map entry_ident (entries fd))"
    by (simp add: get_or_def new_entries_fresh)
  then show ?thesis by (rule exI)
next
  case (Some old)
  let ?new = "new_entries old (entries fd)"
  let ?l = "gn_loop env cfg (old, tick w) (rev ?new)"
  from new Some have ne: "?new \<noteq> []" by (simp add: get_or_def)
  have p: "poll_geeknews env cfg state w =
      (state(GEEKNEWS_FEED_URL \<mapsto> last_n MAX_IDS_PER_FEED (fst ?l)), snd ?l)"
    using Some feed ne by (rule poll_geeknews_steady)
  obtain app where a: "fst ?l = old @ app" "set app \<subseteq> entry_ident ` set (rev ?new)"
    using gn_loop_seen [of env cfg "(old, tick w)" "rev ?new"] by auto
  from p a Some have "fst (poll_geeknews env cfg state w) =
                 state(GEEKNEWS_FEED_URL \<mapsto>
                   last_n MAX_IDS_PER_FEED (get_or (state GEEKNEWS_FEED_URL) [] @ app))
             \<and> set app \<subseteq> entry_ident ` set (new_entries (get_or (state GEEKNEWS_FEED_URL) []) (entries fd))
             \<and> (state GEEKNEWS_FEED_URL = None \<longrightarrow> app = map entry_ident (entries fd))
             \<and> (state GEEKNEWS_FEED_URL \<noteq> None \<longrightarrow>
                  fst (gn_loop env cfg (get_or (state GEEKNEWS_FEED_URL) [], tick w)
                         (rev (new_entries (get_or (state GEEKNEWS_FEED_URL) []) (entries fd))))
                    = get_or (state GEEKNEWS_FEED_URL) [] @ app)"
    by (simp add: get_or_def)
  then show ?thesis by (rule exI)
qed

lemma poll_hackernews_update:
  assumes new: "new_ids (get_or (state HN_STATE_KEY) []) (get_or (top_resp env (clock w)) []) \<noteq> []"
  shows "\<exists>app w'. poll_hackernews env cfg state w =
                 Inr (state(HN_STATE_KEY \<mapsto>
                        last_n MAX_IDS_PER_FEED (get_or (state HN_STATE_KEY) [] @ app)), w')
             \<and> set app \<subseteq> set (new_ids (get_or (state HN_STATE_KEY) [])
                                      (get_or (top_resp env (clock w)) []))
             \<and> (state HN_STATE_KEY = None \<longrightarrow>
                  app = map py_str (get_or (top_resp env (clock w)) []))
             \<and> (state HN_STATE_KEY \<noteq> None \<longrightarrow>
                  hn_loop env cfg (get_or (state HN_STATE_KEY) [], tick w)
                    (rev (new_ids (get_or (state HN_STATE_KEY) [])
                                  (get_or (top_resp env (clock w)) [])))
                    = Inr (get_or (state HN_STATE_KEY) [] @ app, w'))"
proof -
  from new have "get_or (top_resp env (clock w)) [] \<noteq> []" by (auto simp: new_ids_def)
  then obtain top_ids where top: "top_resp env (clock w) = Some top_ids" and ne: "top_ids \<noteq> []"
    by (cases "top_resp env (clock w)") (auto simp: get_or_def)
  show ?thesis
  proof (cases "state HN_STATE_KEY")
    case None
    have "poll_hackernews env cfg state w =
           Inr (state(HN_STATE_KEY \<mapsto> last_n MAX_IDS_PER_FEED (map py_str top_ids)), tick w)"
      using None top ne by (rule poll_hackernews_first)
    with None top have "poll_hackernews env cfg state w =
                 Inr (state(HN_STATE_KEY \<mapsto>
                        last_n MAX_IDS_PER_FEED (get_or (state HN_STATE_KEY) [] @ map py_str top_ids)), tick w)
             \<and> set (map py_str top_ids) \<subseteq> set (new_ids (get_or (state HN_STATE_KEY) [])
                                      (get_or (top_resp env (clock w)) []))
             \<and> (state HN_STATE_KEY = None \<longrightarrow>
                  map py_str top_ids = map py_str (get_or (top_resp env (clock w)) []))
             \<and> (state HN_STATE_KEY \<noteq> None \<longrightarrow>
                  hn_loop env cfg (get_or (state HN_STATE_KEY) [], tick w)
                    (rev (new_ids (get_or (state HN_STATE_KEY) [])
                                  (get_or (top_resp env (clock w)) [])))
                    = Inr (get_or (state HN_STATE_KEY) [] @ map py_str top_ids, tick w))"
      by (simp add: get_or_def new_ids_fresh)
    then show ?thesis by - (rule exI, rule exI, assumption)
  next
    case (Some old)
    let ?new = "new_ids old top_ids"
    from new Some top have nn: "?new \<noteq> []" by (simp add: get_or_def)
    have "\<forall>s \<in> set (rev ?new). py_int s \<noteq> None" using new_ids_py_int by auto
    then obtain st' where l: "hn_loop env cfg (old, tick w) (rev ?new) = Inr st'"
      using hn_loop_ok by blast
    have p: "poll_hackernews env cfg state w =
           Inr (state(HN_STATE_KEY \<mapsto> last_n MAX_IDS_PER_FEED (fst st')), snd st')"
      using Some top nn l by (rule poll_hackernews_steady)
    obtain app where a: "fst st' = old @ app" "set app \<subseteq> set (rev ?new)"
      using hn_loop_seen [OF l] by auto
    from a(1) have st': "st' = (old @ app, snd st')" by (cases st') simp
    from p a l Some top have "poll_hackernews env cfg state w =
                 Inr (state(HN_STATE_KEY \<mapsto>
                        last_n MAX_IDS_PER_FEED (get_or (state HN_STATE_KEY) [] @ app)), snd st')
             \<and> set app \<subseteq> set (new_ids (get_or (state HN_STATE_KEY) [])
                                      (get_or (top_resp env (clock w)) []))
             \<and> (state HN_STATE_KEY = None \<longrightarrow>
                  app = map py_str (get_or (top_resp env (clock w)) []))
             \<and> (state HN_STATE_KEY \<noteq> None \<longrightarrow>
                  hn_loop env cfg (get_or (state HN_STATE_KEY) [], tick w)
                    (rev (new_ids (get_or (state HN_STATE_KEY) [])
                                  (get_or (top_resp env (clock w)) [])))
                    = Inr (get_or (state HN_STATE_KEY) [] @ app, snd st'))"
      using st' by (simp add: get_or_def)
    then show ?thesis by - (rule exI, rule exI, assumption)
  qed
qed

section \<open>Claims\<close>

text \<open>
  C8. When the fetch of a source fails or gives no item, the poll of that source leaves the
  state as it was: \<open>feedparser.parse\<close> raising, or a feed with no entries (whatever its
  \<open>bozo\<close> flag), for the feed; a failed request, or an empty ranking, for the ranked
  source. The whole dictionary is unchanged, and the world has the one fetch request
  more and no post.
\<close>

theorem C8_failed_or_empty_fetch_keeps_state:
  "((case feed_resp env (clock w) of None \<Rightarrow> True | Some fd \<Rightarrow> entries fd = []) \<longrightarrow>
      poll_geeknews env cfg state w = (state, tick w))
   \<and> ((case top_resp env (clock w) of None \<Rightarrow> True | Some ids \<Rightarrow> ids = []) \<longrightarrow>
      poll_hackernews env cfg state w = Inr (state, tick w))"
  by (auto simp: poll_geeknews_def poll_hackernews_def fetch_feed_def fetch_hn_top_ids_def
                 get_or_def Let_def new_entries_def
           split: option.splits)

theorem C8_witness:
  "(case feed_resp net_down (clock w0) of None \<Rightarrow> True | Some fd \<Rightarrow> entries fd = [])
   \<and> (case top_resp net_down (clock w0) of None \<Rightarrow> True | Some ids \<Rightarrow> ids = [])
   \<and> poll_geeknews net_down cfg0 [GEEKNEWS_FEED_URL \<mapsto> [''a'']] w0
       = ([GEEKNEWS_FEED_URL \<mapsto> [''a'']], tick w0)
   \<and> poll_hackernews net_down cfg0 [GEEKNEWS_FEED_URL \<mapsto> [''a'']] w0
       = Inr ([GEEKNEWS_FEED_URL \<mapsto> [''a'']], tick w0)"
  using C8_failed_or_empty_fetch_keeps_state
          [of net_down w0 cfg0 "[GEEKNEWS_FEED_URL \<mapsto> [''a'']]"]
  by (simp add: net_down_def w0_def)

text \<open>
  C3, as the code has it. For the body \<open><li>one</li><li>two</li>\<close> the result of
  \<open>strip_html\<close> is \<open>- one- two\<close>: both items are there and no tag is left, but on one
  line. \<open><li>\<close> becomes \<open>- \<close>, \<open></li>\<close> is removed with the other tags, and nothing puts
  a line feed between two items.
\<close>

theorem C3_list_items_stay_on_one_line:
  "strip_html ''<li>one</li><li>two</li>'' = ''- one- two''
   \<and> CHR ''<'' \<notin> set (strip_html ''<li>one</li><li>two</li>'')
   \<and> CHR ''>'' \<notin> set (strip_html ''<li>one</li><li>two</li>'')"
  by (simp add: strip_html_def py_strip_def starts_with_def br_rest_def isspace_def)

text \<open>
  C3 as stated fails: the result for \<open><li>one</li><li>two</li>\<close> has no line feed, so
  \<open>- one\<close> and \<open>- two\<close> are not on separate lines.
\<close>

theorem C3_counterexample:
  "CHR 0x0A \<notin> set (strip_html ''<li>one</li><li>two</li>'')"
  by (simp add: strip_html_def py_strip_def starts_with_def br_rest_def isspace_def)

text \<open>
  C7. \<open>save_state\<close> writes the serialization to the temporary file and then replaces the
  state file in one step. After any \<open>k\<close> of its operations short of the last, the state
  file is what it was before the call; just before the last, the temporary file holds
  the whole serialization; after the last, the state file holds the whole serialization
  and the temporary file is gone. So the state file is the previous one or the new one
  at every point.
\<close>

theorem C7_state_file_old_or_new:
  "(k < length (save_state json_dump cfg state) \<longrightarrow>
      run_ops f (take k (save_state json_dump cfg state)) (STATE_FILE cfg) = f (STATE_FILE cfg))
   \<and> run_ops f (butlast (save_state json_dump cfg state)) (tmp_file cfg)
       = Some (concat (json_dump state))
   \<and> run_ops f (save_state json_dump cfg state) (STATE_FILE cfg)
       = Some (concat (json_dump state))
   \<and> run_ops f (save_state json_dump cfg state) (tmp_file cfg) = None"
proof -
  let ?ops = "save_state json_dump cfg state"
  have ne: "?ops \<noteq> []" by (simp add: save_state_def)
  have a: "run_ops f (take k ?ops) (STATE_FILE cfg) = f (STATE_FILE cfg)" if "k < length ?ops"
  proof -
    from that have "take k ?ops = take k (butlast ?ops)"
      by (simp add: take_butlast)
    moreover have "\<forall>op \<in> set (take k (butlast ?ops)). only_touches (tmp_file cfg) op"
      using save_state_before_rename [of json_dump cfg state] by (meson in_set_takeD)
    ultimately show ?thesis
      unfolding run_ops_def using run_only_touches state_tmp_distinct by metis
  qed
  have split: "?ops = butlast ?ops @ [Replace (tmp_file cfg) (STATE_FILE cfg)]"
    by (simp add: save_state_def butlast_append)
  have full: "run_ops f ?ops =
      fs_step (run_ops f (butlast ?ops)) (Replace (tmp_file cfg) (STATE_FILE cfg))"
    by (subst split) (simp add: run_ops_def)
  have c: "run_ops f ?ops (STATE_FILE cfg) = Some (concat (json_dump state))"
    using state_tmp_distinct [of cfg] by (simp add: full run_before_rename)
  have d: "run_ops f ?ops (tmp_file cfg) = None"
    by (simp add: full)
  from a c d show ?thesis by (simp add: run_before_rename)
qed

theorem C7_witness:
  "(3::nat) < length (save_state dump0 cfg0 Map.empty)
   \<and> run_ops [STATE_FILE cfg0 \<mapsto> ''old''] (take 3 (save_state dump0 cfg0 Map.empty)) (STATE_FILE cfg0)
       = Some ''old''
   \<and> run_ops [STATE_FILE cfg0 \<mapsto> ''old''] (take 3 (save_state dump0 cfg0 Map.empty)) (tmp_file cfg0)
       = Some ''{''
   \<and> run_ops [STATE_FILE cfg0 \<mapsto> ''old''] (save_state dump0 cfg0 Map.empty) (STATE_FILE cfg0)
       = Some ''{}''"
  using C7_state_file_old_or_new [of 3 dump0 cfg0 Map.empty "[STATE_FILE cfg0 \<mapsto> ''old'']"]
  by (simp add: save_state_def dump0_def run_ops_def STATE_FILE_def tmp_file_def cfg0_def get_or_def)


text \<open>
  C9. In a steady-state cycle of the ranked source, let \<open>str_id\<close> be any identifier of
  the processing order \<open>reversed(new_ids)\<close>, after the identifiers \<open>pre\<close> and before
  \<open>post\<close>. The loop reaches it in a state \<open>st1\<close>, and \<open>int(str_id)\<close> is a number \<open>n\<close>.
  When the detail fetched then carries the dead or the deleted flag, the step appends
  \<open>str_id\<close> to \<open>seen_list\<close> and makes no post (the world only counts the fetch), and the
  sequence stored at the end of the cycle is the last 1000 of a list that has \<open>str_id\<close>
  right after what was there before the step.
\<close>

theorem C9_dead_or_deleted_marked_without_delivery:
  assumes steady: "state HN_STATE_KEY = Some seen0"
      and top: "top_resp env (clock w) = Some top_ids"
      and order: "rev (new_ids seen0 top_ids) = pre @ str_id # post"
  shows "\<exists>st1 n.
           hn_loop env cfg (seen0, tick w) pre = Inr st1 \<and> py_int str_id = Some n
         \<and> (\<forall>item. item_resp env (clock (snd st1)) n = Some item
                     \<and> (h_dead item \<or> h_deleted item) \<longrightarrow>
                hn_step env cfg st1 str_id = Inr (fst st1 @ [str_id], tick (snd st1))
              \<and> posts (tick (snd st1)) = posts (snd st1)
              \<and> (\<exists>rest w'. poll_hackernews env cfg state w =
                     Inr (state(HN_STATE_KEY \<mapsto>
                            last_n MAX_IDS_PER_FEED (fst st1 @ str_id # rest)), w')
                   \<and> length rest \<le> length post))"
proof -
  from hn_context [where state = state and cfg = cfg, OF steady top order]
  obtain st1 n st2 rest w' where c:
      "hn_loop env cfg (seen0, tick w) pre = Inr st1" "py_int str_id = Some n"
      "hn_step env cfg st1 str_id = Inr st2"
      "poll_hackernews env cfg state w =
         Inr (state(HN_STATE_KEY \<mapsto> last_n MAX_IDS_PER_FEED (fst st2 @ rest)), w')"
      "length rest \<le> length post"
    by blast
  have "hn_step env cfg st1 str_id = Inr (fst st1 @ [str_id], tick (snd st1))
        \<and> posts (tick (snd st1)) = posts (snd st1)
        \<and> (\<exists>rest w'. poll_hackernews env cfg state w =
               Inr (state(HN_STATE_KEY \<mapsto> last_n MAX_IDS_PER_FEED (fst st1 @ str_id # rest)), w')
             \<and> length rest \<le> length post)"
    if i: "item_resp env (clock (snd st1)) n = Some item" and f: "h_dead item \<or> h_deleted item"
    for item
  proof -
    have s: "hn_step env cfg st1 str_id = Inr (fst st1 @ [str_id], tick (snd st1))"
      using c(2) i f by (rule hn_step_dead)
    with c(3) have "fst st2 = fst st1 @ [str_id]" by auto
    with c(4,5) s show ?thesis by (auto simp: tick_def)
  qed
  with c(1,2) show ?thesis by blast
qed

theorem C9_witness:
  "state_hn HN_STATE_KEY = Some [''5'']
   \<and> top_resp (net_hn (Some (item0\<lparr>h_dead := True\<rparr>)) True) (clock w0) = Some [7]
   \<and> rev (new_ids [''5''] [7]) = [] @ ''7'' # []
   \<and> poll_hackernews (net_hn (Some (item0\<lparr>h_dead := True\<rparr>)) True) cfg0 state_hn w0
       = Inr (state_hn(HN_STATE_KEY \<mapsto> [''5'', ''7'']), \<lparr>clock = 2, posts = []\<rparr>)"
proof -
  have h1: "state_hn HN_STATE_KEY = Some [''5'']" by (simp add: state_hn_def)
  have h2: "top_resp (net_hn (Some (item0\<lparr>h_dead := True\<rparr>)) True) (clock w0) = Some [7]"
    by (simp add: net_hn_def)
  have h3: "rev (new_ids [''5''] [7]) = [] @ ''7'' # []" by (simp add: new_ids_7)
  show ?thesis
    using C9_dead_or_deleted_marked_without_delivery
            [where state = state_hn and cfg = cfg0, OF h1 h2 h3] h1 h3
    by (simp add: hn_eval)
qed

text \<open>
  C1, as the code has it. In the same setting, when the detail fetch returns no item,
  the step appends \<open>str_id\<close> to \<open>seen_list\<close> and makes no post: \<open>not item\<close> is the first
  disjunct of the test that also holds for dead and deleted items. The sequence stored
  at the end of the cycle is the last 1000 of a list that has \<open>str_id\<close> right after what
  was there before the step, and \<open>str_id\<close> is in it when fewer than 1000 identifiers
  come after it in the cycle.
\<close>

theorem C1_failed_item_fetch_is_marked_seen:
  assumes steady: "state HN_STATE_KEY = Some seen0"
      and top: "top_resp env (clock w) = Some top_ids"
      and order: "rev (new_ids seen0 top_ids) = pre @ str_id # post"
  shows "\<exists>st1 n.
           hn_loop env cfg (seen0, tick w) pre = Inr st1 \<and> py_int str_id = Some n
         \<and> (item_resp env (clock (snd st1)) n = None \<longrightarrow>
                hn_step env cfg st1 str_id = Inr (fst st1 @ [str_id], tick (snd st1))
              \<and> posts (tick (snd st1)) = posts (snd st1)
              \<and> (\<exists>rest w'. poll_hackernews env cfg state w =
                     Inr (state(HN_STATE_KEY \<mapsto>
                            last_n MAX_IDS_PER_FEED (fst st1 @ str_id # rest)), w')
                   \<and> length rest \<le> length post
                   \<and> (length post < MAX_IDS_PER_FEED \<longrightarrow>
                        str_id \<in> set (last_n MAX_IDS_PER_FEED (fst st1 @ str_id # rest)))))"
proof -
  from hn_context [where state = state and cfg = cfg, OF steady top order]
  obtain st1 n st2 rest w' where c:
      "hn_loop env cfg (seen0, tick w) pre = Inr st1" "py_int str_id = Some n"
      "hn_step env cfg st1 str_id = Inr st2"
      "poll_hackernews env cfg state w =
         Inr (state(HN_STATE_KEY \<mapsto> last_n MAX_IDS_PER_FEED (fst st2 @ rest)), w')"
      "length rest \<le> length post"
    by blast
  have keeps: "length post < MAX_IDS_PER_FEED \<longrightarrow>
                 str_id \<in> set (last_n MAX_IDS_PER_FEED (fst st1 @ str_id # rest))"
  proof
    assume "length post < MAX_IDS_PER_FEED"
    with c(5) have "length rest < MAX_IDS_PER_FEED" by simp
    then show "str_id \<in> set (last_n MAX_IDS_PER_FEED (fst st1 @ str_id # rest))"
      by (rule last_n_keeps)
  qed
  have main: "item_resp env (clock (snd st1)) n = None \<longrightarrow>
          hn_step env cfg st1 str_id = Inr (fst st1 @ [str_id], tick (snd st1))
        \<and> posts (tick (snd st1)) = posts (snd st1)
        \<and> (\<exists>rest w'. poll_hackernews env cfg state w =
               Inr (state(HN_STATE_KEY \<mapsto> last_n MAX_IDS_PER_FEED (fst st1 @ str_id # rest)), w')
             \<and> length rest \<le> length post
             \<and> (length post < MAX_IDS_PER_FEED \<longrightarrow>
                  str_id \<in> set (last_n MAX_IDS_PER_FEED (fst st1 @ str_id # rest))))"
  proof
    assume i: "item_resp env (clock (snd st1)) n = None"
    have s: "hn_step env cfg st1 str_id = Inr (fst st1 @ [str_id], tick (snd st1))"
      using c(2) i by (rule hn_step_missing)
    with c(3) have "fst st2 = fst st1 @ [str_id]" by auto
    with c(4) have p: "poll_hackernews env cfg state w =
               Inr (state(HN_STATE_KEY \<mapsto> last_n MAX_IDS_PER_FEED (fst st1 @ str_id # rest)), w')"
      by simp
    have "\<exists>rest w'. poll_hackernews env cfg state w =
               Inr (state(HN_STATE_KEY \<mapsto> last_n MAX_IDS_PER_FEED (fst st1 @ str_id # rest)), w')
             \<and> length rest \<le> length post
             \<and> (length post < MAX_IDS_PER_FEED \<longrightarrow>
                  str_id \<in> set (last_n MAX_IDS_PER_FEED (fst st1 @ str_id # rest)))"
    proof (intro exI conjI)
      show "poll_hackernews env cfg state w =
               Inr (state(HN_STATE_KEY \<mapsto> last_n MAX_IDS_PER_FEED (fst st1 @ str_id # rest)), w')"
        by (rule p)
      show "length rest \<le> length post" by (rule c(5))
      show "length post < MAX_IDS_PER_FEED \<longrightarrow>
                  str_id \<in> set (last_n MAX_IDS_PER_FEED (fst st1 @ str_id # rest))"
        by (rule keeps)
    qed
    with s show "hn_step env cfg st1 str_id = Inr (fst st1 @ [str_id], tick (snd st1))
        \<and> posts (tick (snd st1)) = posts (snd st1)
        \<and> (\<exists>rest w'. poll_hackernews env cfg state w =
               Inr (state(HN_STATE_KEY \<mapsto> last_n MAX_IDS_PER_FEED (fst st1 @ str_id # rest)), w')
             \<and> length rest \<le> length post
             \<and> (length post < MAX_IDS_PER_FEED \<longrightarrow>
                  str_id \<in> set (last_n MAX_IDS_PER_FEED (fst st1 @ str_id # rest))))"
      by (simp add: tick_def)
  qed
  show ?thesis
  proof (intro exI conjI)
    show "hn_loop env cfg (seen0, tick w) pre = Inr st1" by (rule c(1))
    show "py_int str_id = Some n" by (rule c(2))
    show "item_resp env (clock (snd st1)) n = None \<longrightarrow>
          hn_step env cfg st1 str_id = Inr (fst st1 @ [str_id], tick (snd st1))
        \<and> posts (tick (snd st1)) = posts (snd st1)
        \<and> (\<exists>rest w'. poll_hackernews env cfg state w =
               Inr (state(HN_STATE_KEY \<mapsto> last_n MAX_IDS_PER_FEED (fst st1 @ str_id # rest)), w')
             \<and> length rest \<le> length post
             \<and> (length post < MAX_IDS_PER_FEED \<longrightarrow>
                  str_id \<in> set (last_n MAX_IDS_PER_FEED (fst st1 @ str_id # rest))))"
      by (rule main)
  qed
qed

theorem C1_witness:
  "state_hn HN_STATE_KEY = Some [''5'']
   \<and> top_resp (net_hn None True) (clock w0) = Some [7]
   \<and> rev (new_ids [''5''] [7]) = [] @ ''7'' # []
   \<and> item_resp (net_hn None True) (clock (tick w0)) 7 = None
   \<and> hn_step (net_hn None True) cfg0 ([''5''], tick w0) ''7''
       = Inr ([''5''] @ [''7''], tick (tick w0))
   \<and> posts (tick (tick w0)) = posts (tick w0)
   \<and> length ([] :: string list) < MAX_IDS_PER_FEED
   \<and> ''7'' \<in> set (last_n MAX_IDS_PER_FEED ([''5''] @ ''7'' # []))"
proof -
  have h1: "state_hn HN_STATE_KEY = Some [''5'']" by (simp add: state_hn_def)
  have h2: "top_resp (net_hn None True) (clock w0) = Some [7]" by (simp add: net_hn_def)
  have h3: "rev (new_ids [''5''] [7]) = [] @ ''7'' # []" by (simp add: new_ids_7)
  show ?thesis
    using C1_failed_item_fetch_is_marked_seen
            [where state = state_hn and cfg = cfg0, OF h1 h2 h3] h1 h3
    by (simp add: hn_eval)
qed

text \<open>
  C1 as stated fails: with \<open>5\<close> seen, the ranking \<open>[7]\<close> and a detail fetch that returns
  nothing, the cycle ends with \<open>7\<close> in the seen sequence.
\<close>

theorem C1_counterexample:
  "item_resp (net_hn None True) 1 7 = None
   \<and> poll_hackernews (net_hn None True) cfg0 state_hn w0
       = Inr (state_hn(HN_STATE_KEY \<mapsto> [''5'', ''7'']), \<lparr>clock = 2, posts = []\<rparr>)"
  by (simp add: hn_eval)


text \<open>
  C4. In the same setting, when the detail fetched is an item that is neither dead nor
  deleted, the step makes a delivery call (one post to the webhook, with the formatted
  item) exactly when score plus comment count is at least the threshold: at or above
  the threshold the posts grow by that one post; below it no post is made and
  \<open>seen_list\<close> is left as it was. Delivered means that the delivery call is made; whether
  it succeeds is the network's answer.
\<close>

theorem C4_delivery_call_iff_threshold_reached:
  assumes steady: "state HN_STATE_KEY = Some seen0"
      and top: "top_resp env (clock w) = Some top_ids"
      and order: "rev (new_ids seen0 top_ids) = pre @ str_id # post"
  shows "\<exists>st1 n.
           hn_loop env cfg (seen0, tick w) pre = Inr st1 \<and> py_int str_id = Some n
         \<and> (\<forall>item. item_resp env (clock (snd st1)) n = Some item
                     \<and> \<not> h_dead item \<and> \<not> h_deleted item \<longrightarrow>
              (\<exists>st2 rest w'.
                  hn_step env cfg st1 str_id = Inr st2
                \<and> (HN_MIN_SCORE_COMMENTS cfg
                       \<le> get_or (h_score item) 0 + get_or (h_descendants item) 0 \<longrightarrow>
                     posts (snd st2) =
                       posts (snd st1) @ [(HACKERNEWS_WEBHOOK cfg, format_hackernews item)])
                \<and> (get_or (h_score item) 0 + get_or (h_descendants item) 0
                       < HN_MIN_SCORE_COMMENTS cfg \<longrightarrow>
                     posts (snd st2) = posts (snd st1) \<and> fst st2 = fst st1)
                \<and> poll_hackernews env cfg state w =
                     Inr (state(HN_STATE_KEY \<mapsto> last_n MAX_IDS_PER_FEED (fst st2 @ rest)), w')
                \<and> set rest \<subseteq> set post))"
proof -
  from hn_context [where state = state and cfg = cfg, OF steady top order]
  obtain st1 n st2 rest w' where c:
      "hn_loop env cfg (seen0, tick w) pre = Inr st1" "py_int str_id = Some n"
      "hn_step env cfg st1 str_id = Inr st2"
      "poll_hackernews env cfg state w =
         Inr (state(HN_STATE_KEY \<mapsto> last_n MAX_IDS_PER_FEED (fst st2 @ rest)), w')"
      "set rest \<subseteq> set post"
    by blast
  have "(HN_MIN_SCORE_COMMENTS cfg \<le> get_or (h_score item) 0 + get_or (h_descendants item) 0 \<longrightarrow>
           posts (snd st2) = posts (snd st1) @ [(HACKERNEWS_WEBHOOK cfg, format_hackernews item)])
        \<and> (get_or (h_score item) 0 + get_or (h_descendants item) 0 < HN_MIN_SCORE_COMMENTS cfg \<longrightarrow>
             posts (snd st2) = posts (snd st1) \<and> fst st2 = fst st1)"
    if i: "item_resp env (clock (snd st1)) n = Some item" and a: "\<not> h_dead item" "\<not> h_deleted item"
    for item
  proof (cases "get_or (h_score item) 0 + get_or (h_descendants item) 0 < HN_MIN_SCORE_COMMENTS cfg")
    case True
    with c(2) i a have "hn_step env cfg st1 str_id = Inr (fst st1, tick (snd st1))"
      by (rule hn_step_below)
    with c(3) True show ?thesis by (auto simp: tick_def)
  next
    case False
    then have "HN_MIN_SCORE_COMMENTS cfg \<le> get_or (h_score item) 0 + get_or (h_descendants item) 0"
      by simp
    with c(2) i a have "hn_step env cfg st1 str_id =
       Inr (if post_resp env (Suc (clock (snd st1))) (HACKERNEWS_WEBHOOK cfg) (format_hackernews item)
            then fst st1 @ [str_id] else fst st1,
            (snd st1)\<lparr>clock := Suc (Suc (clock (snd st1))),
                     posts := posts (snd st1) @ [(HACKERNEWS_WEBHOOK cfg, format_hackernews item)]\<rparr>)"
      by (rule hn_step_send)
    with c(3) False show ?thesis by auto
  qed
  with c show ?thesis by blast
qed


theorem C4_witness:
  "state_hn HN_STATE_KEY = Some [''5'']
   \<and> top_resp (net_hn (Some item0) True) (clock w0) = Some [7]
   \<and> rev (new_ids [''5''] [7]) = [] @ ''7'' # []
   \<and> get_or (h_score item0) 0 + get_or (h_descendants item0) 0 = HN_MIN_SCORE_COMMENTS cfg0
   \<and> poll_hackernews (net_hn (Some item0) True) cfg0 state_hn w0
       = Inr (state_hn(HN_STATE_KEY \<mapsto> [''5'', ''7'']),
              \<lparr>clock = 3, posts = [(''http://mm/hn'', format_hackernews item0)]\<rparr>)
   \<and> get_or (h_score (item0\<lparr>h_descendants := Some 19\<rparr>)) 0
       + get_or (h_descendants (item0\<lparr>h_descendants := Some 19\<rparr>)) 0 < HN_MIN_SCORE_COMMENTS cfg0
   \<and> poll_hackernews (net_hn (Some (item0\<lparr>h_descendants := Some 19\<rparr>)) True) cfg0 state_hn w0
       = Inr (state_hn(HN_STATE_KEY \<mapsto> [''5'']), \<lparr>clock = 2, posts = []\<rparr>)"
proof -
  have h1: "state_hn HN_STATE_KEY = Some [''5'']" by (simp add: state_hn_def)
  have h2: "top_resp (net_hn (Some item0) True) (clock w0) = Some [7]" by (simp add: net_hn_def)
  have h2': "top_resp (net_hn (Some (item0\<lparr>h_descendants := Some 19\<rparr>)) True) (clock w0) = Some [7]"
    by (simp add: net_hn_def)
  have h3: "rev (new_ids [''5''] [7]) = [] @ ''7'' # []" by (simp add: new_ids_7)
  show ?thesis
    using C4_delivery_call_iff_threshold_reached
            [where state = state_hn and cfg = cfg0, OF h1 h2 h3]
          C4_delivery_call_iff_threshold_reached
            [where state = state_hn and cfg = cfg0, OF h1 h2' h3] h1 h3
    by (simp add: hn_eval)
qed

text \<open>
  C2, as the code has it. For a source whose key is absent from the state, a poll that
  fetches a non-empty list makes no delivery call and stores under the key the
  identifiers of the last 1000 fetched items, in fetch order; when at most 1000 items
  were fetched these are all of them.
\<close>

theorem C2_first_poll_stores_last_1000_without_delivery:
  "(state GEEKNEWS_FEED_URL = None \<and> feed_resp env (clock w) = Some fd \<and> entries fd \<noteq> [] \<longrightarrow>
      poll_geeknews env cfg state w =
        (state(GEEKNEWS_FEED_URL \<mapsto>
           last_n MAX_IDS_PER_FEED (map entry_ident (entries fd))), tick w)
    \<and> posts (tick w) = posts w
    \<and> (length (entries fd) \<le> MAX_IDS_PER_FEED \<longrightarrow>
         last_n MAX_IDS_PER_FEED (map entry_ident (entries fd)) = map entry_ident (entries fd)))
   \<and> (state HN_STATE_KEY = None \<and> top_resp env (clock w) = Some top_ids \<and> top_ids \<noteq> [] \<longrightarrow>
      poll_hackernews env cfg state w =
        Inr (state(HN_STATE_KEY \<mapsto> last_n MAX_IDS_PER_FEED (map py_str top_ids)), tick w)
    \<and> posts (tick w) = posts w
    \<and> (length top_ids \<le> MAX_IDS_PER_FEED \<longrightarrow>
         last_n MAX_IDS_PER_FEED (map py_str top_ids) = map py_str top_ids))"
proof (intro conjI impI)
  assume a: "state GEEKNEWS_FEED_URL = None \<and> feed_resp env (clock w) = Some fd \<and> entries fd \<noteq> []"
  then show "poll_geeknews env cfg state w =
        (state(GEEKNEWS_FEED_URL \<mapsto>
           last_n MAX_IDS_PER_FEED (map entry_ident (entries fd))), tick w)"
    by (simp add: poll_geeknews_first)
  show "posts (tick w) = posts w" by (simp add: tick_def)
next
  assume "length (entries fd) \<le> MAX_IDS_PER_FEED"
  then show "last_n MAX_IDS_PER_FEED (map entry_ident (entries fd)) = map entry_ident (entries fd)"
    by (simp add: last_n_short)
next
  assume a: "state HN_STATE_KEY = None \<and> top_resp env (clock w) = Some top_ids \<and> top_ids \<noteq> []"
  then show "poll_hackernews env cfg state w =
        Inr (state(HN_STATE_KEY \<mapsto> last_n MAX_IDS_PER_FEED (map py_str top_ids)), tick w)"
    by (simp add: poll_hackernews_first)
  show "posts (tick w) = posts w" by (simp add: tick_def)
next
  assume "length top_ids \<le> MAX_IDS_PER_FEED"
  then show "last_n MAX_IDS_PER_FEED (map py_str top_ids) = map py_str top_ids"
    by (simp add: last_n_short)
qed


theorem C2_witness:
  "Map.empty GEEKNEWS_FEED_URL = None
   \<and> feed_resp (net_gn [entry0, entry0\<lparr>e_id := None\<rparr>] (\<lambda>t. True)) (clock w0)
       = Some \<lparr>bozo = False, entries = [entry0, entry0\<lparr>e_id := None\<rparr>]\<rparr>
   \<and> length [entry0, entry0\<lparr>e_id := None\<rparr>] \<le> MAX_IDS_PER_FEED
   \<and> poll_geeknews (net_gn [entry0, entry0\<lparr>e_id := None\<rparr>] (\<lambda>t. True)) cfg0 Map.empty w0
       = ([GEEKNEWS_FEED_URL \<mapsto> [''a'', ''http://x/a'']], \<lparr>clock = 1, posts = []\<rparr>)
   \<and> Map.empty HN_STATE_KEY = None
   \<and> top_resp (net_hn None True) (clock w0) = Some [7]
   \<and> poll_hackernews (net_hn None True) cfg0 Map.empty w0
       = Inr ([HN_STATE_KEY \<mapsto> [''7'']], \<lparr>clock = 1, posts = []\<rparr>)"
  using C2_first_poll_stores_last_1000_without_delivery
          [of Map.empty "net_gn [entry0, entry0\<lparr>e_id := None\<rparr>] (\<lambda>t. True)" w0
              "\<lparr>bozo = False, entries = [entry0, entry0\<lparr>e_id := None\<rparr>]\<rparr>" cfg0]
        C2_first_poll_stores_last_1000_without_delivery
          [of Map.empty "net_hn None True" w0 _ cfg0 "[7]"]
  by (simp add: net_gn_def net_hn_def w0_def tick_def last_n_def MAX_IDS_PER_FEED_def
                entry_ident_def truthy_def get_or_def entry0_def py_str_7)


text \<open>
  C2 as stated fails for a batch of more than 1000 items: with an empty state and the
  ranking \<open>1, ..., 1001\<close>, the first poll stores \<open>2, ..., 1001\<close>, and the identifier of
  the first fetched item is not marked seen.
\<close>

theorem C2_counterexample:
  "poll_hackernews net_many cfg0 Map.empty w0
     = Inr ([HN_STATE_KEY \<mapsto> map (py_str \<circ> int) [2..<1002]], \<lparr>clock = 1, posts = []\<rparr>)
   \<and> py_str 1 \<notin> set (map (py_str \<circ> int) [2..<1002])"
proof -
  have "top_resp net_many (clock w0) = Some (map int [1..<1002])" by (simp add: net_many_def)
  moreover have "map int [1..<1002] \<noteq> []" by simp
  moreover have "Map.empty HN_STATE_KEY = (None :: string list option)" by simp
  ultimately have "poll_hackernews net_many cfg0 Map.empty w0 =
      Inr (Map.empty(HN_STATE_KEY \<mapsto> last_n MAX_IDS_PER_FEED (map py_str (map int [1..<1002]))),
           tick w0)"
    by (rule poll_hackernews_first [where state = Map.empty, rotated 1])
  moreover have "last_n MAX_IDS_PER_FEED (map py_str (map int [1..<1002]))
                   = map (py_str \<circ> int) [2..<1002]"
  proof -
    have "last_n 1000 (map py_str (map int [1..<1002]))
            = map (py_str \<circ> int) [1 + (1002 - 1 - 1000)..<1002]"
      unfolding last_n_def by (simp only: length_map length_upt drop_map drop_upt map_map)
    moreover have "(1::nat) + (1002 - 1 - 1000) = 2" by simp
    ultimately show ?thesis by (simp only: MAX_IDS_PER_FEED_def)
  qed
  moreover have "py_str 1 \<notin> set (map (py_str \<circ> int) [2..<1002])"
  proof
    assume "py_str 1 \<in> set (map (py_str \<circ> int) [2..<1002])"
    then obtain k where "2 \<le> k" "py_str 1 = py_str (int k)"
      by (auto simp del: upt_rec_numeral)
    then show False using py_str_inj [of 1 "int k"] by simp
  qed
  ultimately show ?thesis by (simp del: upt_rec_numeral add: tick_def w0_def)
qed

text \<open>
  C5. When nothing is new (the fetch failed, or every fetched identifier is in the seen
  sequence), a poll leaves the state as it was. Otherwise it stores \<open>stored\<close> under the
  source's key and changes no other key, where \<open>app\<close> is what the cycle appended, in the
  order of appending (for a fresh source every fetched identifier in fetch order, else
  what the delivery loop added to the old sequence), the old sequence followed by \<open>app\<close>
  is \<open>dropped @ stored\<close>, and \<open>stored\<close> has the length of that whole sequence or 1000,
  whichever is smaller. So \<open>stored\<close> never exceeds 1000, and what is dropped is the front
  of the sequence: the oldest entries, and only as many as exceed 1000. When every
  sequence of the state has at most 1000 entries before the poll, every sequence has at
  most 1000 after it. The poll of the ranked source always returns.
\<close>

theorem C5_bounded_fifo_retention:
  "((\<forall>fd. feed_resp env (clock w) = Some fd \<longrightarrow>
          new_entries (get_or (state GEEKNEWS_FEED_URL) []) (entries fd) = []) \<longrightarrow>
      fst (poll_geeknews env cfg state w) = state)
   \<and> (feed_resp env (clock w) = Some fd
       \<and> new_entries (get_or (state GEEKNEWS_FEED_URL) []) (entries fd) \<noteq> [] \<longrightarrow>
      (\<exists>app dropped stored.
          (state GEEKNEWS_FEED_URL = None \<longrightarrow> app = map entry_ident (entries fd))
        \<and> (state GEEKNEWS_FEED_URL \<noteq> None \<longrightarrow>
             fst (gn_loop env cfg (get_or (state GEEKNEWS_FEED_URL) [], tick w)
                    (rev (new_entries (get_or (state GEEKNEWS_FEED_URL) []) (entries fd))))
               = get_or (state GEEKNEWS_FEED_URL) [] @ app)
        \<and> get_or (state GEEKNEWS_FEED_URL) [] @ app = dropped @ stored
        \<and> length stored
             = min MAX_IDS_PER_FEED (length (get_or (state GEEKNEWS_FEED_URL) [] @ app))
        \<and> fst (poll_geeknews env cfg state w) = state(GEEKNEWS_FEED_URL \<mapsto> stored)))
   \<and> ((\<forall>k l. state k = Some l \<longrightarrow> length l \<le> MAX_IDS_PER_FEED) \<longrightarrow>
       (\<forall>k l. fst (poll_geeknews env cfg state w) k = Some l \<longrightarrow> length l \<le> MAX_IDS_PER_FEED))
   \<and> (new_ids (get_or (state HN_STATE_KEY) []) (get_or (top_resp env (clock w)) []) = [] \<longrightarrow>
      poll_hackernews env cfg state w = Inr (state, tick w))
   \<and> (new_ids (get_or (state HN_STATE_KEY) []) (get_or (top_resp env (clock w)) []) \<noteq> [] \<longrightarrow>
      (\<exists>app dropped stored w'.
          (state HN_STATE_KEY = None \<longrightarrow>
             app = map py_str (get_or (top_resp env (clock w)) []))
        \<and> (state HN_STATE_KEY \<noteq> None \<longrightarrow>
             hn_loop env cfg (get_or (state HN_STATE_KEY) [], tick w)
               (rev (new_ids (get_or (state HN_STATE_KEY) [])
                             (get_or (top_resp env (clock w)) [])))
               = Inr (get_or (state HN_STATE_KEY) [] @ app, w'))
        \<and> get_or (state HN_STATE_KEY) [] @ app = dropped @ stored
        \<and> length stored = min MAX_IDS_PER_FEED (length (get_or (state HN_STATE_KEY) [] @ app))
        \<and> poll_hackernews env cfg state w = Inr (state(HN_STATE_KEY \<mapsto> stored), w')))
   \<and> ((\<forall>k l. state k = Some l \<longrightarrow> length l \<le> MAX_IDS_PER_FEED) \<longrightarrow>
       (\<exists>state' w'. poll_hackernews env cfg state w = Inr (state', w')
          \<and> (\<forall>k l. state' k = Some l \<longrightarrow> length l \<le> MAX_IDS_PER_FEED)))"
proof (intro conjI)
  show "(\<forall>fd. feed_resp env (clock w) = Some fd \<longrightarrow>
          new_entries (get_or (state GEEKNEWS_FEED_URL) []) (entries fd) = []) \<longrightarrow>
      fst (poll_geeknews env cfg state w) = state"
    by (simp add: poll_geeknews_nothing_new)
next
  let ?old = "get_or (state GEEKNEWS_FEED_URL) []"
  show "feed_resp env (clock w) = Some fd \<and> new_entries ?old (entries fd) \<noteq> [] \<longrightarrow>
      (\<exists>app dropped stored.
          (state GEEKNEWS_FEED_URL = None \<longrightarrow> app = map entry_ident (entries fd))
        \<and> (state GEEKNEWS_FEED_URL \<noteq> None \<longrightarrow>
             fst (gn_loop env cfg (?old, tick w) (rev (new_entries ?old (entries fd)))) = ?old @ app)
        \<and> ?old @ app = dropped @ stored
        \<and> length stored = min MAX_IDS_PER_FEED (length (?old @ app))
        \<and> fst (poll_geeknews env cfg state w) = state(GEEKNEWS_FEED_URL \<mapsto> stored))"
  proof
    assume a: "feed_resp env (clock w) = Some fd \<and> new_entries ?old (entries fd) \<noteq> []"
    then have feed: "feed_resp env (clock w) = Some fd"
      and new: "new_entries ?old (entries fd) \<noteq> []" by simp_all
    from poll_geeknews_update [where state = state and cfg = cfg, OF feed new]
    obtain app where u: "fst (poll_geeknews env cfg state w) =
                 state(GEEKNEWS_FEED_URL \<mapsto> last_n MAX_IDS_PER_FEED (?old @ app))"
        "state GEEKNEWS_FEED_URL = None \<longrightarrow> app = map entry_ident (entries fd)"
        "state GEEKNEWS_FEED_URL \<noteq> None \<longrightarrow>
           fst (gn_loop env cfg (?old, tick w) (rev (new_entries ?old (entries fd)))) = ?old @ app"
      by (elim exE conjE) (rule that; assumption)
    show "\<exists>app dropped stored.
          (state GEEKNEWS_FEED_URL = None \<longrightarrow> app = map entry_ident (entries fd))
        \<and> (state GEEKNEWS_FEED_URL \<noteq> None \<longrightarrow>
             fst (gn_loop env cfg (?old, tick w) (rev (new_entries ?old (entries fd)))) = ?old @ app)
        \<and> ?old @ app = dropped @ stored
        \<and> length stored = min MAX_IDS_PER_FEED (length (?old @ app))
        \<and> fst (poll_geeknews env cfg state w) = state(GEEKNEWS_FEED_URL \<mapsto> stored)"
    proof (intro exI conjI)
      show "state GEEKNEWS_FEED_URL = None \<longrightarrow> app = map entry_ident (entries fd)" by (rule u(2))
      show "state GEEKNEWS_FEED_URL \<noteq> None \<longrightarrow>
           fst (gn_loop env cfg (?old, tick w) (rev (new_entries ?old (entries fd)))) = ?old @ app"
        by (rule u(3))
      show "?old @ app = take (length (?old @ app) - MAX_IDS_PER_FEED) (?old @ app)
                           @ last_n MAX_IDS_PER_FEED (?old @ app)"
        using last_n_split [of "?old @ app" MAX_IDS_PER_FEED] by blast
      show "length (last_n MAX_IDS_PER_FEED (?old @ app))
              = min MAX_IDS_PER_FEED (length (?old @ app))"
        by (rule length_last_n)
      show "fst (poll_geeknews env cfg state w) =
              state(GEEKNEWS_FEED_URL \<mapsto> last_n MAX_IDS_PER_FEED (?old @ app))"
        by (rule u(1))
    qed
  qed
next
  show "(\<forall>k l. state k = Some l \<longrightarrow> length l \<le> MAX_IDS_PER_FEED) \<longrightarrow>
       (\<forall>k l. fst (poll_geeknews env cfg state w) k = Some l \<longrightarrow> length l \<le> MAX_IDS_PER_FEED)"
    using poll_geeknews_shape [of env cfg state w, THEN fifo_update_bound] by blast
next
  show "new_ids (get_or (state HN_STATE_KEY) []) (get_or (top_resp env (clock w)) []) = [] \<longrightarrow>
      poll_hackernews env cfg state w = Inr (state, tick w)"
    by (simp add: poll_hackernews_nothing_new)
next
  let ?old = "get_or (state HN_STATE_KEY) []"
  let ?new = "new_ids ?old (get_or (top_resp env (clock w)) [])"
  show "?new \<noteq> [] \<longrightarrow>
      (\<exists>app dropped stored w'.
          (state HN_STATE_KEY = None \<longrightarrow> app = map py_str (get_or (top_resp env (clock w)) []))
        \<and> (state HN_STATE_KEY \<noteq> None \<longrightarrow>
             hn_loop env cfg (?old, tick w) (rev ?new) = Inr (?old @ app, w'))
        \<and> ?old @ app = dropped @ stored
        \<and> length stored = min MAX_IDS_PER_FEED (length (?old @ app))
        \<and> poll_hackernews env cfg state w = Inr (state(HN_STATE_KEY \<mapsto> stored), w'))"
  proof
    assume new: "?new \<noteq> []"
    from poll_hackernews_update [where state = state and cfg = cfg, OF new]
    obtain app w' where u: "poll_hackernews env cfg state w =
                 Inr (state(HN_STATE_KEY \<mapsto> last_n MAX_IDS_PER_FEED (?old @ app)), w')"
        "state HN_STATE_KEY = None \<longrightarrow> app = map py_str (get_or (top_resp env (clock w)) [])"
        "state HN_STATE_KEY \<noteq> None \<longrightarrow>
           hn_loop env cfg (?old, tick w) (rev ?new) = Inr (?old @ app, w')"
      by (elim exE conjE) (rule that; assumption)
    show "\<exists>app dropped stored w'.
          (state HN_STATE_KEY = None \<longrightarrow> app = map py_str (get_or (top_resp env (clock w)) []))
        \<and> (state HN_STATE_KEY \<noteq> None \<longrightarrow>
             hn_loop env cfg (?old, tick w) (rev ?new) = Inr (?old @ app, w'))
        \<and> ?old @ app = dropped @ stored
        \<and> length stored = min MAX_IDS_PER_FEED (length (?old @ app))
        \<and> poll_hackernews env cfg state w = Inr (state(HN_STATE_KEY \<mapsto> stored), w')"
    proof (intro exI conjI)
      show "state HN_STATE_KEY = None \<longrightarrow> app = map py_str (get_or (top_resp env (clock w)) [])"
        by (rule u(2))
      show "state HN_STATE_KEY \<noteq> None \<longrightarrow>
           hn_loop env cfg (?old, tick w) (rev ?new) = Inr (?old @ app, w')"
        by (rule u(3))
      show "?old @ app = take (length (?old @ app) - MAX_IDS_PER_FEED) (?old @ app)
                           @ last_n MAX_IDS_PER_FEED (?old @ app)"
        using last_n_split [of "?old @ app" MAX_IDS_PER_FEED] by blast
      show "length (last_n MAX_IDS_PER_FEED (?old @ app))
              = min MAX_IDS_PER_FEED (length (?old @ app))"
        by (rule length_last_n)
      show "poll_hackernews env cfg state w =
              Inr (state(HN_STATE_KEY \<mapsto> last_n MAX_IDS_PER_FEED (?old @ app)), w')"
        by (rule u(1))
    qed
  qed
next
  obtain state' w' where p: "poll_hackernews env cfg state w = Inr (state', w')"
    and s: "state' = state
        \<or> (\<exists>app. state' = state(HN_STATE_KEY \<mapsto>
                    last_n MAX_IDS_PER_FEED (get_or (state HN_STATE_KEY) [] @ app)))"
    using poll_hackernews_shape [of env cfg state w] by blast
  from s [THEN fifo_update_bound]
  have "(\<forall>k l. state k = Some l \<longrightarrow> length l \<le> MAX_IDS_PER_FEED) \<longrightarrow>
          (\<forall>k l. state' k = Some l \<longrightarrow> length l \<le> MAX_IDS_PER_FEED)"
    by blast
  with p show "(\<forall>k l. state k = Some l \<longrightarrow> length l \<le> MAX_IDS_PER_FEED) \<longrightarrow>
       (\<exists>state' w'. poll_hackernews env cfg state w = Inr (state', w')
          \<and> (\<forall>k l. state' k = Some l \<longrightarrow> length l \<le> MAX_IDS_PER_FEED))"
    by blast
qed

theorem C5_witness:
  "feed_resp (net_gn [entry0] ok_always) (clock w0) = Some \<lparr>bozo = False, entries = [entry0]\<rparr>
   \<and> new_entries (get_or (state_full GEEKNEWS_FEED_URL) [])
         (entries \<lparr>bozo = False, entries = [entry0]\<rparr>) \<noteq> []
   \<and> length (replicate 1000 ''x'') \<le> MAX_IDS_PER_FEED
   \<and> fst (gn_loop (net_gn [entry0] ok_always) cfg0 (replicate 1000 ''x'', tick w0) [entry0])
       = replicate 1000 ''x'' @ [''a'']
   \<and> replicate 1000 ''x'' @ [''a''] = [''x''] @ (replicate 999 ''x'' @ [''a''])
   \<and> length (replicate 999 ''x'' @ [''a''])
       = min MAX_IDS_PER_FEED (length (replicate 1000 ''x'' @ [''a'']))
   \<and> fst (poll_geeknews (net_gn [entry0] ok_always) cfg0 state_full w0)
       = state_full(GEEKNEWS_FEED_URL \<mapsto> replicate 999 ''x'' @ [''a''])
   \<and> new_ids (get_or (state_full HN_STATE_KEY) [])
         (get_or (top_resp (net_gn [entry0] ok_always) (clock w0)) []) \<noteq> []
   \<and> poll_hackernews (net_gn [entry0] ok_always) cfg0 state_full w0
       = Inr (state_full(HN_STATE_KEY \<mapsto> [''7'']), \<lparr>clock = 1, posts = []\<rparr>)"
proof -
  have r: "replicate 1000 ''x'' = ''x'' # replicate 999 ''x''"
    by (simp only: replicate_Suc [symmetric]) simp
  have sf: "state_full GEEKNEWS_FEED_URL = Some (replicate 1000 ''x'')"
    by (simp add: state_full_def)
  have feed: "feed_resp (net_gn [entry0] ok_always) (clock w0)
                = Some \<lparr>bozo = False, entries = [entry0]\<rparr>"
    by (simp add: net_gn_def)
  have e: "new_entries (replicate 1000 ''x'') [entry0] = [entry0]"
    by (simp add: new_entries_def entry_ident_entry0)
  have l: "fst (gn_loop (net_gn [entry0] ok_always) cfg0 (replicate 1000 ''x'', tick w0) [entry0])
       = replicate 1000 ''x'' @ [''a'']"
    by (simp add: gn_step_fst net_gn_def ok_always_def entry_ident_entry0)
  have g: "fst (poll_geeknews (net_gn [entry0] ok_always) cfg0 state_full w0)
       = state_full(GEEKNEWS_FEED_URL \<mapsto> replicate 999 ''x'' @ [''a''])"
  proof -
    have "new_entries (replicate 1000 ''x'') (entries \<lparr>bozo = False, entries = [entry0]\<rparr>) \<noteq> []"
      by (simp add: e)
    with sf feed have "poll_geeknews (net_gn [entry0] ok_always) cfg0 state_full w0 =
        (state_full(GEEKNEWS_FEED_URL \<mapsto> last_n MAX_IDS_PER_FEED
           (fst (gn_loop (net_gn [entry0] ok_always) cfg0 (replicate 1000 ''x'', tick w0)
                  (rev (new_entries (replicate 1000 ''x'')
                         (entries \<lparr>bozo = False, entries = [entry0]\<rparr>)))))),
         snd (gn_loop (net_gn [entry0] ok_always) cfg0 (replicate 1000 ''x'', tick w0)
                  (rev (new_entries (replicate 1000 ''x'')
                         (entries \<lparr>bozo = False, entries = [entry0]\<rparr>)))))"
      by (rule poll_geeknews_steady)
    then show ?thesis
      using e l by (simp add: last_n_def MAX_IDS_PER_FEED_def)
  qed
  have n: "new_ids (get_or (state_full HN_STATE_KEY) [])
         (get_or (top_resp (net_gn [entry0] ok_always) (clock w0)) []) \<noteq> []"
    by (simp add: net_gn_def state_full_def GEEKNEWS_FEED_URL_def HN_STATE_KEY_def get_or_def
                  new_ids_def)
  have h: "poll_hackernews (net_gn [entry0] ok_always) cfg0 state_full w0
       = Inr (state_full(HN_STATE_KEY \<mapsto> [''7'']), \<lparr>clock = 1, posts = []\<rparr>)"
    by (simp add: poll_hackernews_def fetch_hn_top_ids_def net_gn_def state_full_def
                  GEEKNEWS_FEED_URL_def HN_STATE_KEY_def get_or_def Let_def new_ids_def py_str_7
                  last_n_def tick_def w0_def MAX_IDS_PER_FEED_def)
  show ?thesis
    using C5_bounded_fifo_retention
            [where env = "net_gn [entry0] ok_always" and w = w0 and state = state_full
               and fd = "\<lparr>bozo = False, entries = [entry0]\<rparr>" and cfg = cfg0]
          g h l n r feed sf e
    by (simp add: MAX_IDS_PER_FEED_def get_or_def)
qed

text \<open>
  C6, as the code has it. In a steady-state cycle, let an item be at any place of the
  processing order, after \<open>pre\<close> and before \<open>post\<close>, and let its delivery call be made
  (for the ranked source: the detail is fetched, neither dead nor deleted, and at or
  above the threshold). When the call returns success, the identifier was not in the
  seen sequence at the start of the cycle, the step appends it, and it is in the
  sequence stored at the end when fewer than 1000 items come after it in the cycle.
  When the call returns failure, the step appends nothing, and the identifier is not in
  the sequence stored at the end when no other item processed in the cycle has the same
  identifier.
\<close>

theorem C6_delivery_result_decides_marking:
  "(state GEEKNEWS_FEED_URL = Some old_seen \<and> feed_resp env (clock w) = Some fd
      \<and> rev (new_entries old_seen (entries fd)) = pre @ e # post \<longrightarrow>
     (\<exists>st1 stored w'.
         st1 = gn_loop env cfg (old_seen, tick w) pre
       \<and> poll_geeknews env cfg state w = (state(GEEKNEWS_FEED_URL \<mapsto> stored), w')
       \<and> (post_resp env (clock (snd st1)) (GEEKNEWS_WEBHOOK cfg) (format_geeknews e) \<longrightarrow>
             entry_ident e \<notin> set old_seen
           \<and> fst (gn_step env cfg st1 e) = fst st1 @ [entry_ident e]
           \<and> (length post < MAX_IDS_PER_FEED \<longrightarrow> entry_ident e \<in> set stored))
       \<and> (\<not> post_resp env (clock (snd st1)) (GEEKNEWS_WEBHOOK cfg) (format_geeknews e) \<longrightarrow>
             fst (gn_step env cfg st1 e) = fst st1
           \<and> (entry_ident e \<notin> entry_ident ` (set pre \<union> set post) \<longrightarrow>
                 entry_ident e \<notin> set stored))))
   \<and> (state HN_STATE_KEY = Some old_seen \<and> top_resp env (clock w) = Some top_ids
      \<and> rev (new_ids old_seen top_ids) = ps @ str_id # qs \<longrightarrow>
     (\<exists>st1 n stored w'.
         hn_loop env cfg (old_seen, tick w) ps = Inr st1 \<and> py_int str_id = Some n
       \<and> poll_hackernews env cfg state w = Inr (state(HN_STATE_KEY \<mapsto> stored), w')
       \<and> (\<forall>item. item_resp env (clock (snd st1)) n = Some item
                   \<and> \<not> h_dead item \<and> \<not> h_deleted item
                   \<and> HN_MIN_SCORE_COMMENTS cfg
                        \<le> get_or (h_score item) 0 + get_or (h_descendants item) 0 \<longrightarrow>
             (post_resp env (Suc (clock (snd st1))) (HACKERNEWS_WEBHOOK cfg)
                        (format_hackernews item) \<longrightarrow>
                 str_id \<notin> set old_seen
               \<and> (\<exists>w2. hn_step env cfg st1 str_id = Inr (fst st1 @ [str_id], w2))
               \<and> (length qs < MAX_IDS_PER_FEED \<longrightarrow> str_id \<in> set stored))
           \<and> (\<not> post_resp env (Suc (clock (snd st1))) (HACKERNEWS_WEBHOOK cfg)
                          (format_hackernews item) \<longrightarrow>
                 (\<exists>w2. hn_step env cfg st1 str_id = Inr (fst st1, w2))
               \<and> (str_id \<notin> set ps \<union> set qs \<longrightarrow> str_id \<notin> set stored)))))"
proof (intro conjI impI)
  assume a: "state GEEKNEWS_FEED_URL = Some old_seen \<and> feed_resp env (clock w) = Some fd
      \<and> rev (new_entries old_seen (entries fd)) = pre @ e # post"
  then have steady: "state GEEKNEWS_FEED_URL = Some old_seen"
    and feed: "feed_resp env (clock w) = Some fd"
    and order: "rev (new_entries old_seen (entries fd)) = pre @ e # post" by simp_all
  let ?st1 = "gn_loop env cfg (old_seen, tick w) pre"
  let ?ok = "post_resp env (clock (snd ?st1)) (GEEKNEWS_WEBHOOK cfg) (format_geeknews e)"
  from gn_context [where state = state and cfg = cfg, OF steady feed order]
  obtain rest w' where p: "poll_geeknews env cfg state w =
        (state(GEEKNEWS_FEED_URL \<mapsto> last_n MAX_IDS_PER_FEED (fst (gn_step env cfg ?st1 e) @ rest)), w')"
      and r: "set rest \<subseteq> entry_ident ` set post" "length rest \<le> length post"
    by blast
  obtain app where ap: "fst ?st1 = old_seen @ app" "set app \<subseteq> entry_ident ` set pre"
    using gn_before by blast
  have "e \<in> set (new_entries old_seen (entries fd))"
    using order by (metis in_set_conv_decomp set_rev)
  then have fresh: "entry_ident e \<notin> set old_seen" by (rule new_entries_not_seen)
  let ?stored = "last_n MAX_IDS_PER_FEED (fst (gn_step env cfg ?st1 e) @ rest)"
  have yes: "entry_ident e \<notin> set old_seen
           \<and> fst (gn_step env cfg ?st1 e) = fst ?st1 @ [entry_ident e]
           \<and> (length post < MAX_IDS_PER_FEED \<longrightarrow> entry_ident e \<in> set ?stored)" if ok: ?ok
  proof -
    from ok have s: "fst (gn_step env cfg ?st1 e) = fst ?st1 @ [entry_ident e]"
      by (simp add: gn_step_fst)
    have "entry_ident e \<in> set ?stored" if "length post < MAX_IDS_PER_FEED"
    proof -
      from that r(2) have "length rest < MAX_IDS_PER_FEED" by simp
      then have "entry_ident e \<in> set (last_n MAX_IDS_PER_FEED (fst ?st1 @ entry_ident e # rest))"
        by (rule last_n_keeps)
      then show ?thesis by (simp add: s)
    qed
    with fresh s show ?thesis by blast
  qed
  have no: "fst (gn_step env cfg ?st1 e) = fst ?st1
           \<and> (entry_ident e \<notin> entry_ident ` (set pre \<union> set post) \<longrightarrow>
                 entry_ident e \<notin> set ?stored)" if nok: "\<not> ?ok"
  proof -
    from nok have s: "fst (gn_step env cfg ?st1 e) = fst ?st1"
      by (simp add: gn_step_fst)
    have "entry_ident e \<notin> set ?stored" if "entry_ident e \<notin> entry_ident ` (set pre \<union> set post)"
    proof -
      from that ap(2) r(1) have "entry_ident e \<notin> set app" "entry_ident e \<notin> set rest" by auto
      with fresh have "entry_ident e \<notin> set (last_n MAX_IDS_PER_FEED (old_seen @ app @ rest))"
        by (rule stored_absent)
      then show ?thesis by (simp add: s ap(1))
    qed
    with s show ?thesis by blast
  qed
  show "\<exists>st1 stored w'.
         st1 = gn_loop env cfg (old_seen, tick w) pre
       \<and> poll_geeknews env cfg state w = (state(GEEKNEWS_FEED_URL \<mapsto> stored), w')
       \<and> (post_resp env (clock (snd st1)) (GEEKNEWS_WEBHOOK cfg) (format_geeknews e) \<longrightarrow>
             entry_ident e \<notin> set old_seen
           \<and> fst (gn_step env cfg st1 e) = fst st1 @ [entry_ident e]
           \<and> (length post < MAX_IDS_PER_FEED \<longrightarrow> entry_ident e \<in> set stored))
       \<and> (\<not> post_resp env (clock (snd st1)) (GEEKNEWS_WEBHOOK cfg) (format_geeknews e) \<longrightarrow>
             fst (gn_step env cfg st1 e) = fst st1
           \<and> (entry_ident e \<notin> entry_ident ` (set pre \<union> set post) \<longrightarrow>
                 entry_ident e \<notin> set stored))"
  proof (intro exI conjI impI)
    show "?st1 = gn_loop env cfg (old_seen, tick w) pre" by simp
    show "poll_geeknews env cfg state w = (state(GEEKNEWS_FEED_URL \<mapsto> ?stored), w')" by (rule p)
  qed (use yes no in blast)+
next
  assume a: "state HN_STATE_KEY = Some old_seen \<and> top_resp env (clock w) = Some top_ids
      \<and> rev (new_ids old_seen top_ids) = ps @ str_id # qs"
  then have steady: "state HN_STATE_KEY = Some old_seen"
    and top: "top_resp env (clock w) = Some top_ids"
    and order: "rev (new_ids old_seen top_ids) = ps @ str_id # qs" by simp_all
  from hn_context [where state = state and cfg = cfg, OF steady top order]
  obtain st1 n st2 rest w' app where c:
      "hn_loop env cfg (old_seen, tick w) ps = Inr st1" "py_int str_id = Some n"
      "hn_step env cfg st1 str_id = Inr st2"
      "poll_hackernews env cfg state w =
         Inr (state(HN_STATE_KEY \<mapsto> last_n MAX_IDS_PER_FEED (fst st2 @ rest)), w')"
      "set rest \<subseteq> set qs" "length rest \<le> length qs"
      "fst st1 = old_seen @ app" "set app \<subseteq> set ps"
    by blast
  have "str_id \<in> set (new_ids old_seen top_ids)"
    using order by (metis in_set_conv_decomp set_rev)
  then have fresh: "str_id \<notin> set old_seen" by (rule new_ids_not_seen)
  let ?stored = "last_n MAX_IDS_PER_FEED (fst st2 @ rest)"
  have main: "(post_resp env (Suc (clock (snd st1))) (HACKERNEWS_WEBHOOK cfg)
                        (format_hackernews item) \<longrightarrow>
                 str_id \<notin> set old_seen
               \<and> (\<exists>w2. hn_step env cfg st1 str_id = Inr (fst st1 @ [str_id], w2))
               \<and> (length qs < MAX_IDS_PER_FEED \<longrightarrow> str_id \<in> set ?stored))
           \<and> (\<not> post_resp env (Suc (clock (snd st1))) (HACKERNEWS_WEBHOOK cfg)
                          (format_hackernews item) \<longrightarrow>
                 (\<exists>w2. hn_step env cfg st1 str_id = Inr (fst st1, w2))
               \<and> (str_id \<notin> set ps \<union> set qs \<longrightarrow> str_id \<notin> set ?stored))"
    if i: "item_resp env (clock (snd st1)) n = Some item" and d: "\<not> h_dead item" "\<not> h_deleted item"
      and t: "HN_MIN_SCORE_COMMENTS cfg \<le> get_or (h_score item) 0 + get_or (h_descendants item) 0"
    for item
  proof -
    let ?ok = "post_resp env (Suc (clock (snd st1))) (HACKERNEWS_WEBHOOK cfg) (format_hackernews item)"
    have step: "hn_step env cfg st1 str_id =
       Inr (if ?ok then fst st1 @ [str_id] else fst st1,
            (snd st1)\<lparr>clock := Suc (Suc (clock (snd st1))),
                     posts := posts (snd st1) @ [(HACKERNEWS_WEBHOOK cfg, format_hackernews item)]\<rparr>)"
      using c(2) i d t by (rule hn_step_send)
    have yes: "str_id \<in> set ?stored" if ok: ?ok and len: "length qs < MAX_IDS_PER_FEED"
    proof -
      from step ok c(3) have s: "fst st2 = fst st1 @ [str_id]" by auto
      from len c(6) have "length rest < MAX_IDS_PER_FEED" by simp
      then have "str_id \<in> set (last_n MAX_IDS_PER_FEED (fst st1 @ str_id # rest))"
        by (rule last_n_keeps)
      then show ?thesis by (simp add: s)
    qed
    have no: "str_id \<notin> set ?stored" if nok: "\<not> ?ok" and other: "str_id \<notin> set ps \<union> set qs"
    proof -
      from step nok c(3) have s: "fst st2 = fst st1" by auto
      from other c(5,8) have "str_id \<notin> set app" "str_id \<notin> set rest" by auto
      with fresh have "str_id \<notin> set (last_n MAX_IDS_PER_FEED (old_seen @ app @ rest))"
        by (rule stored_absent)
      then show ?thesis by (simp add: s c(7))
    qed
    from step fresh yes no show ?thesis by auto
  qed
  show "\<exists>st1 n stored w'.
         hn_loop env cfg (old_seen, tick w) ps = Inr st1 \<and> py_int str_id = Some n
       \<and> poll_hackernews env cfg state w = Inr (state(HN_STATE_KEY \<mapsto> stored), w')
       \<and> (\<forall>item. item_resp env (clock (snd st1)) n = Some item
                   \<and> \<not> h_dead item \<and> \<not> h_deleted item
                   \<and> HN_MIN_SCORE_COMMENTS cfg
                        \<le> get_or (h_score item) 0 + get_or (h_descendants item) 0 \<longrightarrow>
             (post_resp env (Suc (clock (snd st1))) (HACKERNEWS_WEBHOOK cfg)
                        (format_hackernews item) \<longrightarrow>
                 str_id \<notin> set old_seen
               \<and> (\<exists>w2. hn_step env cfg st1 str_id = Inr (fst st1 @ [str_id], w2))
               \<and> (length qs < MAX_IDS_PER_FEED \<longrightarrow> str_id \<in> set stored))
           \<and> (\<not> post_resp env (Suc (clock (snd st1))) (HACKERNEWS_WEBHOOK cfg)
                          (format_hackernews item) \<longrightarrow>
                 (\<exists>w2. hn_step env cfg st1 str_id = Inr (fst st1, w2))
               \<and> (str_id \<notin> set ps \<union> set qs \<longrightarrow> str_id \<notin> set stored)))"
  proof (intro exI conjI allI)
    show "hn_loop env cfg (old_seen, tick w) ps = Inr st1" by (rule c(1))
    show "py_int str_id = Some n" by (rule c(2))
    show "poll_hackernews env cfg state w = Inr (state(HN_STATE_KEY \<mapsto> ?stored), w')"
      by (rule c(4))
    fix item
    show "item_resp env (clock (snd st1)) n = Some item
                   \<and> \<not> h_dead item \<and> \<not> h_deleted item
                   \<and> HN_MIN_SCORE_COMMENTS cfg
                        \<le> get_or (h_score item) 0 + get_or (h_descendants item) 0 \<longrightarrow>
             (post_resp env (Suc (clock (snd st1))) (HACKERNEWS_WEBHOOK cfg)
                        (format_hackernews item) \<longrightarrow>
                 str_id \<notin> set old_seen
               \<and> (\<exists>w2. hn_step env cfg st1 str_id = Inr (fst st1 @ [str_id], w2))
               \<and> (length qs < MAX_IDS_PER_FEED \<longrightarrow> str_id \<in> set ?stored))
           \<and> (\<not> post_resp env (Suc (clock (snd st1))) (HACKERNEWS_WEBHOOK cfg)
                          (format_hackernews item) \<longrightarrow>
                 (\<exists>w2. hn_step env cfg st1 str_id = Inr (fst st1, w2))
               \<and> (str_id \<notin> set ps \<union> set qs \<longrightarrow> str_id \<notin> set ?stored))"
      using main by blast
  qed
qed

theorem C6_witness:
  "state_gn GEEKNEWS_FEED_URL = Some [''z'']
   \<and> feed_resp (net_gn [entry0] ok_always) (clock w0) = Some \<lparr>bozo = False, entries = [entry0]\<rparr>
   \<and> rev (new_entries [''z''] (entries \<lparr>bozo = False, entries = [entry0]\<rparr>)) = [] @ entry0 # []
   \<and> post_resp (net_gn [entry0] ok_always) (clock (tick w0)) (GEEKNEWS_WEBHOOK cfg0)
        (format_geeknews entry0)
   \<and> poll_geeknews (net_gn [entry0] ok_always) cfg0 state_gn w0
       = (state_gn(GEEKNEWS_FEED_URL \<mapsto> [''z'', ''a'']),
          \<lparr>clock = 2, posts = [(''http://mm/gn'', ''#### [A](http://x/a)'')]\<rparr>)
   \<and> \<not> post_resp (net_gn [entry0] ok_at_2) (clock (tick w0)) (GEEKNEWS_WEBHOOK cfg0)
          (format_geeknews entry0)
   \<and> poll_geeknews (net_gn [entry0] ok_at_2) cfg0 state_gn w0
       = (state_gn(GEEKNEWS_FEED_URL \<mapsto> [''z'']),
          \<lparr>clock = 2, posts = [(''http://mm/gn'', ''#### [A](http://x/a)'')]\<rparr>)
   \<and> state_hn HN_STATE_KEY = Some [''5'']
   \<and> rev (new_ids [''5''] [7]) = [] @ ''7'' # []
   \<and> poll_hackernews (net_hn (Some item0) True) cfg0 state_hn w0
       = Inr (state_hn(HN_STATE_KEY \<mapsto> [''5'', ''7'']),
              \<lparr>clock = 3, posts = [(''http://mm/hn'', format_hackernews item0)]\<rparr>)
   \<and> poll_hackernews (net_hn (Some item0) False) cfg0 state_hn w0
       = Inr (state_hn(HN_STATE_KEY \<mapsto> [''5'']),
              \<lparr>clock = 3, posts = [(''http://mm/hn'', format_hackernews item0)]\<rparr>)"
proof -
  have g: "poll_geeknews (net_gn [entry0] ok_always) cfg0 state_gn w0
       = (state_gn(GEEKNEWS_FEED_URL \<mapsto> [''z'', ''a'']),
          \<lparr>clock = 2, posts = [(''http://mm/gn'', ''#### [A](http://x/a)'')]\<rparr>)"
    by (simp add: gn_eval)
  have g': "poll_geeknews (net_gn [entry0] ok_at_2) cfg0 state_gn w0
       = (state_gn(GEEKNEWS_FEED_URL \<mapsto> [''z'']),
          \<lparr>clock = 2, posts = [(''http://mm/gn'', ''#### [A](http://x/a)'')]\<rparr>)"
    by (simp add: gn_eval)
  have h: "poll_hackernews (net_hn (Some item0) True) cfg0 state_hn w0
       = Inr (state_hn(HN_STATE_KEY \<mapsto> [''5'', ''7'']),
              \<lparr>clock = 3, posts = [(''http://mm/hn'', format_hackernews item0)]\<rparr>)"
    by (simp add: hn_eval)
  have h': "poll_hackernews (net_hn (Some item0) False) cfg0 state_hn w0
       = Inr (state_hn(HN_STATE_KEY \<mapsto> [''5'']),
              \<lparr>clock = 3, posts = [(''http://mm/hn'', format_hackernews item0)]\<rparr>)"
    by (simp add: hn_eval)
  have rest: "state_gn GEEKNEWS_FEED_URL = Some [''z'']
   \<and> feed_resp (net_gn [entry0] ok_always) (clock w0) = Some \<lparr>bozo = False, entries = [entry0]\<rparr>
   \<and> rev (new_entries [''z''] (entries \<lparr>bozo = False, entries = [entry0]\<rparr>)) = [] @ entry0 # []
   \<and> post_resp (net_gn [entry0] ok_always) (clock (tick w0)) (GEEKNEWS_WEBHOOK cfg0)
        (format_geeknews entry0)
   \<and> \<not> post_resp (net_gn [entry0] ok_at_2) (clock (tick w0)) (GEEKNEWS_WEBHOOK cfg0)
          (format_geeknews entry0)
   \<and> state_hn HN_STATE_KEY = Some [''5'']
   \<and> rev (new_ids [''5''] [7]) = [] @ ''7'' # []"
    by (simp add: gn_eval new_ids_7 state_hn_def)
  show ?thesis
    using C6_delivery_result_decides_marking
            [where state = state_gn and old_seen = "[''z'']" and env = "net_gn [entry0] ok_always"
               and w = w0 and fd = "\<lparr>bozo = False, entries = [entry0]\<rparr>" and pre = "[]"
               and e = entry0 and post = "[]" and cfg = cfg0]
          C6_delivery_result_decides_marking
            [where state = state_hn and old_seen = "[''5'']" and env = "net_hn (Some item0) True"
               and w = w0 and top_ids = "[7]" and ps = "[]" and str_id = "''7''" and qs = "[]"
               and cfg = cfg0]
          g g' h h' rest
    by simp
qed


text \<open>
  C6 as stated fails when two entries of a batch have the same identifier: with \<open>z\<close>
  seen and a feed of two entries with the identifier \<open>a\<close>, the delivery call of the entry
  processed first fails and the one of the second succeeds, and the cycle ends with \<open>a\<close>
  in the seen sequence, although a delivery call for it returned failure.
\<close>

theorem C6_counterexample:
  "entry_ident entry0 = ''a''
   \<and> \<not> post_resp (net_gn [entry0, entry0] ok_at_2) 1 (GEEKNEWS_WEBHOOK cfg0)
          (format_geeknews entry0)
   \<and> poll_geeknews (net_gn [entry0, entry0] ok_at_2) cfg0 state_gn w0
       = (state_gn(GEEKNEWS_FEED_URL \<mapsto> [''z'', ''a'']),
          \<lparr>clock = 3, posts = [(''http://mm/gn'', ''#### [A](http://x/a)''),
                                (''http://mm/gn'', ''#### [A](http://x/a)'')]\<rparr>)"
  by (simp add: gn_eval)




end
